theory Spec2Isabelle
  imports
    Complex_Main
    "HOL-Library.Word"
    "HOL-Library.Char_ord"
    "HOL-Library.List_Lexorder"
    "HOL-Library.Multiset"
begin

section \<open>Plant disease classifier: feature extraction and dataset assembly\<close>

text \<open>
  A shallow embedding of \<^verbatim>\<open>train_sklearn_model.py\<close>. Python floats are idealised as
  \<^typ>\<open>real\<close>; \<^verbatim>\<open>uint8\<close> array entries are \<^typ>\<open>8 word\<close>. The image library, the
  file system, the random generator and the classifier library are outside the
  repository and are taken as parameters.
\<close>

subsection \<open>Configuration\<close>

definition IMG_SIZE :: nat where
  "IMG_SIZE = 128"

definition SAMPLES_PER_CLASS :: nat where
  "SAMPLES_PER_CLASS = 1000"

definition OUTPUT_DIR :: string where
  "OUTPUT_DIR = ''sklearn_model_output''"

definition predict_IMG_SIZE :: nat where
  \<comment> \<open>\<^verbatim>\<open>IMG_SIZE = 128\<close> of the generated \<^verbatim>\<open>predict.py\<close>\<close>
  "predict_IMG_SIZE = 128"

subsection \<open>Images and arrays\<close>

datatype exn = OSError | DecodeError | KeyError | ValueError

datatype pixel = RGB (chan0: "8 word") (chan1: "8 word") (chan2: "8 word")

text \<open>An array of shape \<open>(h, w, 3)\<close> and dtype \<^verbatim>\<open>uint8\<close>: a list of rows of pixels.\<close>

type_synonym image = "pixel list list"

text \<open>A PIL image: its size and its pixels, addressed by column \<open>x\<close> and row \<open>y\<close>.\<close>

record pil_image =
  width :: nat
  height :: nat
  getpixel :: "nat \<Rightarrow> nat \<Rightarrow> pixel"

definition np_array :: "pil_image \<Rightarrow> image" where
  "np_array img = map (\<lambda>y. map (\<lambda>x. getpixel img x y) [0..<width img]) [0..<height img]"

text \<open>
  The part of the image library the extractor calls: opening and decoding a file as RGB
  (which may fail), the interpolation used by \<^verbatim>\<open>resize\<close>, and the per-pixel conversion
  to HSV.
\<close>

record imaging =
  open_rgb :: "string \<Rightarrow> exn + pil_image"
  resample :: "pil_image \<Rightarrow> nat \<Rightarrow> nat \<Rightarrow> nat \<Rightarrow> nat \<Rightarrow> pixel"
  rgb_to_hsv :: "pixel \<Rightarrow> pixel"

definition resize :: "imaging \<Rightarrow> pil_image \<Rightarrow> nat \<times> nat \<Rightarrow> pil_image" where
  \<comment> \<open>\<^verbatim>\<open>img.resize((w, h))\<close>: an image of exactly the requested size\<close>
  "resize lib img wh = (case wh of (w, h) \<Rightarrow>
     \<lparr>width = w, height = h, getpixel = resample lib img w h\<rparr>)"

definition convert_hsv :: "imaging \<Rightarrow> pil_image \<Rightarrow> pil_image" where
  \<comment> \<open>\<^verbatim>\<open>img.convert('HSV')\<close>\<close>
  "convert_hsv lib img = img\<lparr>getpixel := (\<lambda>x y. rgb_to_hsv lib (getpixel img x y))\<rparr>"

definition valid_image :: "image \<Rightarrow> bool" where
  "valid_image a \<longleftrightarrow> length a = IMG_SIZE \<and> list_all (\<lambda>row. length row = IMG_SIZE) a"

definition plane :: "(pixel \<Rightarrow> 8 word) \<Rightarrow> image \<Rightarrow> 8 word list" where
  \<comment> \<open>\<^verbatim>\<open>a[:,:,c]\<close>, its entries in row-major order\<close>
  "plane c a = map c (concat a)"

definition u8 :: "8 word list \<Rightarrow> real list" where
  "u8 a = map (\<lambda>v. real (unat v)) a"

definition all_values :: "image \<Rightarrow> real list" where
  \<comment> \<open>every entry of the array, in row-major order\<close>
  "all_values a = concat (map (\<lambda>p. u8 [chan0 p, chan1 p, chan2 p]) (concat a))"

subsection \<open>The numpy reductions used\<close>

definition np_mean :: "real list \<Rightarrow> real" where
  "np_mean a = sum_list a / real (length a)"

definition np_std :: "real list \<Rightarrow> real" where
  "np_std a = sqrt (np_mean (map (\<lambda>x. \<bar>x - np_mean a\<bar> ^ 2) a))"

definition np_median :: "real list \<Rightarrow> real" where
  "np_median a = (let s = sort a; n = length s in
     if n mod 2 = 1 then s ! (n div 2) else (s ! (n div 2 - 1) + s ! (n div 2)) / 2)"

text \<open>\<^verbatim>\<open>np.min\<close> and \<^verbatim>\<open>np.max\<close> raise \<^verbatim>\<open>ValueError\<close> on an array without entries.\<close>

definition np_min :: "8 word list \<Rightarrow> exn + 8 word" where
  "np_min a = (case a of [] \<Rightarrow> Inl ValueError | x # xs \<Rightarrow> Inr (fold min xs x))"

definition np_max :: "8 word list \<Rightarrow> exn + 8 word" where
  "np_max a = (case a of [] \<Rightarrow> Inl ValueError | x # xs \<Rightarrow> Inr (fold max xs x))"

definition reduce3 :: "(8 word list \<Rightarrow> exn + 8 word) \<Rightarrow> image \<Rightarrow> exn + real list" where
  \<comment> \<open>a fallible reduction over \<^verbatim>\<open>axis=(0, 1)\<close>: one value per channel\<close>
  "reduce3 f a =
     (case f (plane chan0 a) of Inl e \<Rightarrow> Inl e | Inr r \<Rightarrow>
      case f (plane chan1 a) of Inl e \<Rightarrow> Inl e | Inr g \<Rightarrow>
      case f (plane chan2 a) of Inl e \<Rightarrow> Inl e | Inr b \<Rightarrow> Inr (u8 [r, g, b]))"

definition axis01 :: "(real list \<Rightarrow> real) \<Rightarrow> image \<Rightarrow> real list" where
  \<comment> \<open>a reduction over \<^verbatim>\<open>axis=(0, 1)\<close>: one value per channel\<close>
  "axis01 f a = [f (u8 (plane chan0 a)), f (u8 (plane chan1 a)), f (u8 (plane chan2 a))]"

definition np_histogram :: "8 word list \<Rightarrow> nat \<Rightarrow> nat \<times> nat \<Rightarrow> nat list" where
  \<comment> \<open>\<^verbatim>\<open>np.histogram(a, bins, range)[0]\<close>: equal-width bins, the last one closed on the
      right, values outside the range ignored\<close>
  "np_histogram a bins rng = (case rng of (lo, hi) \<Rightarrow>
     map (\<lambda>k. length (filter (\<lambda>v. lo \<le> unat v \<and> unat v \<le> hi \<and>
            (if unat v = hi then bins - 1 else (unat v - lo) * bins div (hi - lo)) = k) a))
       [0..<bins])"

definition count_true :: "bool list list \<Rightarrow> nat" where
  \<comment> \<open>\<^verbatim>\<open>np.sum\<close> of a boolean mask\<close>
  "count_true m = length (filter id (concat m))"

subsection \<open>Laplacian convolution: \<^verbatim>\<open>scipy.ndimage.convolve\<close> with its defaults\<close>

definition reflect_index :: "nat \<Rightarrow> int \<Rightarrow> nat" where
  \<comment> \<open>boundary mode \<^verbatim>\<open>reflect\<close>: \<^verbatim>\<open>(d c b a | a b c d | d c b a)\<close>\<close>
  "reflect_index n i = (let m = i mod (2 * int n) in
     nat (if m < int n then m else 2 * int n - 1 - m))"

definition reflected :: "real list list \<Rightarrow> int \<Rightarrow> int \<Rightarrow> real" where
  "reflected a i j = (let row = a ! reflect_index (length a) i in
     row ! reflect_index (length row) j)"

definition ndimage_convolve :: "real list list \<Rightarrow> int list list \<Rightarrow> real list list" where
  \<comment> \<open>a 3 by 3 kernel \<open>k\<close>, flipped as a convolution does, centred on each entry\<close>
  "ndimage_convolve a k =
     map (\<lambda>i. map (\<lambda>j.
       sum_list (map (\<lambda>di. sum_list (map (\<lambda>dj.
         real_of_int (k ! di ! dj) * reflected a (int i + 1 - int di) (int j + 1 - int dj))
         [0..<3])) [0..<3]))
       [0..<length (a ! i)]) [0..<length a]"

subsection \<open>The pieces of the feature vector\<close>

definition hist_of :: "(pixel \<Rightarrow> 8 word) \<Rightarrow> image \<Rightarrow> real list" where
  \<comment> \<open>\<^verbatim>\<open>np.histogram(a[:,:,c], bins=64, range=(0, 256))[0] / (IMG_SIZE * IMG_SIZE)\<close>\<close>
  "hist_of c a =
     map (\<lambda>n. real n / real (IMG_SIZE * IMG_SIZE)) (np_histogram (plane c a) 64 (0, 256))"

definition gray_of :: "image \<Rightarrow> real list list" where
  \<comment> \<open>\<^verbatim>\<open>np.mean(a, axis=2)\<close>\<close>
  "gray_of a = map (map (\<lambda>p. np_mean (u8 [chan0 p, chan1 p, chan2 p]))) a"

definition laplacian :: "int list list" where
  "laplacian = [[0, 1, 0], [1, -4, 1], [0, 1, 0]]"

definition edges_of :: "image \<Rightarrow> real list list" where
  "edges_of a = ndimage_convolve (gray_of a) laplacian"

definition edge_mean :: "image \<Rightarrow> real" where
  "edge_mean a = np_mean (map abs (concat (edges_of a)))"

definition edge_std :: "image \<Rightarrow> real" where
  "edge_std a = np_std (concat (edges_of a))"

definition green_ratio :: "image \<Rightarrow> real" where
  "green_ratio a = np_mean (u8 (plane chan1 a)) / (np_mean (all_values a) + 1 / 10 ^ 6)"

definition brown_mask :: "image \<Rightarrow> bool list list" where
  "brown_mask a =
     map (map (\<lambda>p. chan0 p > 100 \<and> chan1 p > 50 \<and> chan1 p < 150 \<and> chan2 p < 100)) a"

definition brown_ratio :: "image \<Rightarrow> real" where
  "brown_ratio a = real (count_true (brown_mask a)) / real (IMG_SIZE * IMG_SIZE)"

definition yellow_mask :: "image \<Rightarrow> bool list list" where
  "yellow_mask a = map (map (\<lambda>p. chan0 p > 150 \<and> chan1 p > 150 \<and> chan2 p < 100)) a"

definition yellow_ratio :: "image \<Rightarrow> real" where
  "yellow_ratio a = real (count_true (yellow_mask a)) / real (IMG_SIZE * IMG_SIZE)"

definition shape2 :: "image \<Rightarrow> nat \<times> nat" where
  \<comment> \<open>\<^verbatim>\<open>a.shape[:2]\<close>\<close>
  "shape2 a = (length a, case a of [] \<Rightarrow> 0 | row # _ \<Rightarrow> length row)"

definition quad_means :: "image \<Rightarrow> real list" where
  "quad_means a = (case shape2 a of (h, w) \<Rightarrow>
     let q1 = map (take (w div 2)) (take (h div 2) a);
         q2 = map (drop (w div 2)) (take (h div 2) a);
         q3 = map (take (w div 2)) (drop (h div 2) a);
         q4 = map (drop (w div 2)) (drop (h div 2) a)
     in [np_mean (all_values q1), np_mean (all_values q2),
         np_mean (all_values q3), np_mean (all_values q4)])"

definition spatial_variance :: "image \<Rightarrow> real" where
  "spatial_variance a = np_std (quad_means a)"

subsection \<open>Training-time extraction: \<^verbatim>\<open>extract_features_worker\<close>\<close>

definition worker_body :: "imaging \<Rightarrow> string \<Rightarrow> exn + real list" where
  \<comment> \<open>the body of the \<^verbatim>\<open>try\<close> block\<close>
  "worker_body lib image_path =
     (case open_rgb lib image_path of Inl e \<Rightarrow> Inl e | Inr img0 \<Rightarrow>
      let img = resize lib img0 (IMG_SIZE, IMG_SIZE);
          img_array = np_array img;
          hist_r = hist_of chan0 img_array;
          hist_g = hist_of chan1 img_array;
          hist_b = hist_of chan2 img_array;
          mean_rgb = axis01 np_mean img_array;
          std_rgb = axis01 np_std img_array;
          median_rgb = axis01 np_median img_array
      in case reduce3 np_min img_array of Inl e \<Rightarrow> Inl e | Inr min_rgb \<Rightarrow>
         case reduce3 np_max img_array of Inl e \<Rightarrow> Inl e | Inr max_rgb \<Rightarrow>
      let hsv_img = convert_hsv lib img;
          hsv_array = np_array hsv_img;
          mean_hsv = axis01 np_mean hsv_array;
          std_hsv = axis01 np_std hsv_array
      in Inr (hist_r @ hist_g @ hist_b @
              mean_rgb @ std_rgb @ median_rgb @ min_rgb @ max_rgb @
              mean_hsv @ std_hsv @
              [edge_mean img_array, edge_std img_array] @
              [green_ratio img_array, brown_ratio img_array, yellow_ratio img_array] @
              [spatial_variance img_array]))"

definition extract_features_worker :: "imaging \<Rightarrow> string \<Rightarrow> real list option" where
  \<comment> \<open>\<^verbatim>\<open>except Exception: return None\<close>\<close>
  "extract_features_worker lib image_path =
     (case worker_body lib image_path of Inl e \<Rightarrow> None | Inr features \<Rightarrow> Some features)"

text \<open>The two arrays the worker computes from an opened image, by name.\<close>

definition rgb_array :: "imaging \<Rightarrow> pil_image \<Rightarrow> image" where
  "rgb_array lib img0 = np_array (resize lib img0 (IMG_SIZE, IMG_SIZE))"

definition hsv_array :: "imaging \<Rightarrow> pil_image \<Rightarrow> image" where
  "hsv_array lib img0 = np_array (convert_hsv lib (resize lib img0 (IMG_SIZE, IMG_SIZE)))"

subsection \<open>Inference-time extraction: \<^verbatim>\<open>extract_features\<close> of the generated \<^verbatim>\<open>predict.py\<close>\<close>

text \<open>
  The template is an f-string whose only substitutions are the doubled braces of its
  \<^verbatim>\<open>print\<close> calls, so the function written to \<^verbatim>\<open>predict.py\<close> is the text of the
  template. It is translated here on its own, from the template.
\<close>

definition predict_body :: "imaging \<Rightarrow> string \<Rightarrow> exn + real list list" where
  "predict_body lib image_path =
     (case open_rgb lib image_path of Inl e \<Rightarrow> Inl e | Inr img0 \<Rightarrow>
      let img = resize lib img0 (predict_IMG_SIZE, predict_IMG_SIZE);
          img_array = np_array img;
          hist_r' = np_histogram (plane chan0 img_array) 64 (0, 256);
          hist_g' = np_histogram (plane chan1 img_array) 64 (0, 256);
          hist_b' = np_histogram (plane chan2 img_array) 64 (0, 256);
          hist_r = map (\<lambda>n. real n / real (predict_IMG_SIZE * predict_IMG_SIZE)) hist_r';
          hist_g = map (\<lambda>n. real n / real (predict_IMG_SIZE * predict_IMG_SIZE)) hist_g';
          hist_b = map (\<lambda>n. real n / real (predict_IMG_SIZE * predict_IMG_SIZE)) hist_b';
          mean_rgb = axis01 np_mean img_array;
          std_rgb = axis01 np_std img_array;
          median_rgb = axis01 np_median img_array
      in case reduce3 np_min img_array of Inl e \<Rightarrow> Inl e | Inr min_rgb \<Rightarrow>
         case reduce3 np_max img_array of Inl e \<Rightarrow> Inl e | Inr max_rgb \<Rightarrow>
      let hsv_img = convert_hsv lib img;
          hsv_array = np_array hsv_img;
          mean_hsv = axis01 np_mean hsv_array;
          std_hsv = axis01 np_std hsv_array;
          gray = map (map (\<lambda>p. np_mean (u8 [chan0 p, chan1 p, chan2 p]))) img_array;
          lap = [[0, 1, 0], [1, -4, 1], [0, 1, 0]];
          edges = ndimage_convolve gray lap;
          e_mean = np_mean (map abs (concat edges));
          e_std = np_std (concat edges);
          g_ratio = np_mean (u8 (plane chan1 img_array)) /
                    (np_mean (all_values img_array) + 1 / 10 ^ 6);
          b_mask = map (map (\<lambda>p. chan0 p > 100 \<and> chan1 p > 50 \<and> chan1 p < 150 \<and>
                     chan2 p < 100)) img_array;
          b_ratio = real (count_true b_mask) / real (predict_IMG_SIZE * predict_IMG_SIZE);
          y_mask = map (map (\<lambda>p. chan0 p > 150 \<and> chan1 p > 150 \<and> chan2 p < 100)) img_array;
          y_ratio = real (count_true y_mask) / real (predict_IMG_SIZE * predict_IMG_SIZE);
          h = fst (shape2 img_array);
          w = snd (shape2 img_array);
          q1 = map (take (w div 2)) (take (h div 2) img_array);
          q2 = map (drop (w div 2)) (take (h div 2) img_array);
          q3 = map (take (w div 2)) (drop (h div 2) img_array);
          q4 = map (drop (w div 2)) (drop (h div 2) img_array);
          q_means = [np_mean (all_values q1), np_mean (all_values q2),
                     np_mean (all_values q3), np_mean (all_values q4)];
          s_variance = np_std q_means;
          features = hist_r @ hist_g @ hist_b @
                     mean_rgb @ std_rgb @ median_rgb @ min_rgb @ max_rgb @
                     mean_hsv @ std_hsv @
                     [e_mean, e_std] @
                     [g_ratio, b_ratio, y_ratio] @
                     [s_variance]
      in Inr [features])"

definition extract_features :: "imaging \<Rightarrow> string \<Rightarrow> real list list option" where
  \<comment> \<open>\<^verbatim>\<open>except Exception\<close>: print the error, \<^verbatim>\<open>return None\<close>\<close>
  "extract_features lib image_path =
     (case predict_body lib image_path of Inl e \<Rightarrow> None | Inr m \<Rightarrow> Some m)"

subsection \<open>The file system\<close>

record filesystem =
  path_exists :: "string \<Rightarrow> bool"
  isdir :: "string \<Rightarrow> bool"
  listdir :: "string \<Rightarrow> exn + string list"
  makedirs :: "string \<Rightarrow> exn + unit"

definition path_join :: "string \<Rightarrow> string \<Rightarrow> string" where
  \<comment> \<open>\<^verbatim>\<open>os.path.join\<close> of two components (POSIX)\<close>
  "path_join a b =
     (if b \<noteq> [] \<and> hd b = CHR ''/'' then b
      else if a = [] \<or> last a = CHR ''/'' then a @ b
      else a @ ''/'' @ b)"

definition lower_char :: "char \<Rightarrow> char" where
  "lower_char c = (let n = (of_char c :: nat) in
     if 65 \<le> n \<and> n \<le> 90 then char_of (n + 32) else c)"

definition lower :: "string \<Rightarrow> string" where
  \<comment> \<open>\<^verbatim>\<open>str.lower\<close> on the ASCII letters, which decide the three suffixes below\<close>
  "lower s = map lower_char s"

definition endswith :: "string \<Rightarrow> string \<Rightarrow> bool" where
  "endswith s suf \<longleftrightarrow> length suf \<le> length s \<and> drop (length s - length suf) s = suf"

definition is_image_file :: "string \<Rightarrow> bool" where
  "is_image_file f \<longleftrightarrow>
     endswith (lower f) ''.jpg'' \<or> endswith (lower f) ''.jpeg'' \<or> endswith (lower f) ''.png''"

definition class_dirs :: "filesystem \<Rightarrow> string \<Rightarrow> exn + string list" where
  \<comment> \<open>\<^verbatim>\<open>[d for d in os.listdir(p) if os.path.isdir(os.path.join(p, d))]\<close>\<close>
  "class_dirs fs p = (case listdir fs p of Inl e \<Rightarrow> Inl e
     | Inr names \<Rightarrow> Inr (filter (\<lambda>d. isdir fs (path_join p d)) names))"

subsection \<open>Dataset assembly: \<^verbatim>\<open>prepare_dataset\<close>\<close>

text \<open>First pass: the union of the class names of every root that exists.\<close>

fun collect_classes :: "filesystem \<Rightarrow> string list \<Rightarrow> string set \<Rightarrow> exn + string set" where
  "collect_classes fs [] all_classes = Inr all_classes"
| "collect_classes fs (d_path # rest) all_classes =
     (if \<not> path_exists fs d_path then collect_classes fs rest all_classes
      else case class_dirs fs d_path of Inl e \<Rightarrow> Inl e
        | Inr classes \<Rightarrow> collect_classes fs rest (all_classes \<union> set classes))"

definition idx_step :: "nat \<times> string \<Rightarrow> (string \<rightharpoonup> nat) \<Rightarrow> (string \<rightharpoonup> nat)" where
  \<comment> \<open>one entry of the dictionary comprehension: a later entry replaces an earlier one\<close>
  "idx_step = (\<lambda>(i, name) m. m(name \<mapsto> i))"

definition class_to_idx_of :: "string list \<Rightarrow> (string \<rightharpoonup> nat)" where
  \<comment> \<open>\<^verbatim>\<open>{name: i for i, name in enumerate(class_names)}\<close>\<close>
  "class_to_idx_of class_names = fold idx_step (enumerate 0 class_names) Map.empty"

text \<open>
  \<^verbatim>\<open>random.sample\<close> reads and advances the generator's state \<open>'g\<close>; a sampler takes the
  state, the population and \<open>k\<close>, and returns the sample with the new state.
\<close>

type_synonym 'g sampler = "'g \<Rightarrow> string list \<Rightarrow> nat \<Rightarrow> string list \<times> 'g"

definition select_files :: "'g sampler \<Rightarrow> 'g \<Rightarrow> string list \<Rightarrow> string list \<times> 'g" where
  "select_files random_sample g image_files =
     (if length image_files > SAMPLES_PER_CLASS
      then random_sample g image_files SAMPLES_PER_CLASS
      else (image_files, g))"

definition class_tasks ::
  "filesystem \<Rightarrow> 'g sampler \<Rightarrow> (string \<rightharpoonup> nat) \<Rightarrow> string \<Rightarrow> string \<Rightarrow> 'g \<Rightarrow>
   exn + ((string \<times> nat) list \<times> 'g)" where
  \<comment> \<open>the body of the loop over the class directories of one root\<close>
  "class_tasks fs random_sample class_to_idx dataset_path class_name g =
     (let class_path = path_join dataset_path class_name in
      case class_to_idx class_name of None \<Rightarrow> Inl KeyError | Some class_idx \<Rightarrow>
      case listdir fs class_path of Inl e \<Rightarrow> Inl e | Inr names \<Rightarrow>
      case select_files random_sample g (filter is_image_file names) of (image_files, g') \<Rightarrow>
        Inr (map (\<lambda>img_file. (path_join class_path img_file, class_idx)) image_files, g'))"

fun scan_classes ::
  "filesystem \<Rightarrow> 'g sampler \<Rightarrow> (string \<rightharpoonup> nat) \<Rightarrow> string \<Rightarrow> string list \<Rightarrow> 'g \<Rightarrow>
   (string \<times> nat) list \<Rightarrow> exn + ((string \<times> nat) list \<times> 'g)" where
  "scan_classes fs smp c2i dataset_path [] g tasks = Inr (tasks, g)"
| "scan_classes fs smp c2i dataset_path (class_name # rest) g tasks =
     (case class_tasks fs smp c2i dataset_path class_name g of Inl e \<Rightarrow> Inl e
      | Inr (new, g') \<Rightarrow> scan_classes fs smp c2i dataset_path rest g' (tasks @ new))"

fun scan_roots ::
  "filesystem \<Rightarrow> 'g sampler \<Rightarrow> (string \<rightharpoonup> nat) \<Rightarrow> string list \<Rightarrow> 'g \<Rightarrow>
   (string \<times> nat) list \<Rightarrow> exn + ((string \<times> nat) list \<times> 'g)" where
  "scan_roots fs smp c2i [] g tasks = Inr (tasks, g)"
| "scan_roots fs smp c2i (dataset_path # rest) g tasks =
     (if \<not> path_exists fs dataset_path then scan_roots fs smp c2i rest g tasks
      else case class_dirs fs dataset_path of Inl e \<Rightarrow> Inl e
        | Inr current_class_dirs \<Rightarrow>
            (case scan_classes fs smp c2i dataset_path current_class_dirs g tasks of
               Inl e \<Rightarrow> Inl e
             | Inr (tasks', g') \<Rightarrow> scan_roots fs smp c2i rest g' tasks'))"

definition assemble_step ::
  "(string \<times> nat) list \<Rightarrow> nat \<times> real list option \<Rightarrow> real list list \<times> nat list \<Rightarrow>
   real list list \<times> nat list" where
  \<comment> \<open>the body of the loop over \<^verbatim>\<open>enumerate(results)\<close>\<close>
  "assemble_step all_image_tasks = (\<lambda>(i, features) (X, y).
     case features of None \<Rightarrow> (X, y)
     | Some f \<Rightarrow> (X @ [f], y @ [snd (all_image_tasks ! i)]))"

definition assemble ::
  "real list option list \<Rightarrow> (string \<times> nat) list \<Rightarrow> real list list \<times> nat list" where
  \<comment> \<open>the loop that fills \<open>X\<close> and \<open>y\<close>\<close>
  "assemble results all_image_tasks =
     fold (assemble_step all_image_tasks) (enumerate 0 results) ([], [])"

definition vocabulary :: "filesystem \<Rightarrow> string list \<Rightarrow> exn + string list" where
  \<comment> \<open>\<^verbatim>\<open>class_names = sorted(list(all_classes))\<close>\<close>
  "vocabulary fs dataset_paths =
     (case collect_classes fs dataset_paths {} of Inl e \<Rightarrow> Inl e
      | Inr all_classes \<Rightarrow> Inr (sorted_list_of_set all_classes))"

definition image_tasks ::
  "filesystem \<Rightarrow> 'g sampler \<Rightarrow> 'g \<Rightarrow> string list \<Rightarrow> exn + (string list \<times> (string \<times> nat) list)"
  where
  \<comment> \<open>both passes over the roots: the vocabulary and \<^verbatim>\<open>all_image_tasks\<close>\<close>
  "image_tasks fs smp g dataset_paths =
     (case vocabulary fs dataset_paths of Inl e \<Rightarrow> Inl e | Inr class_names \<Rightarrow>
      case scan_roots fs smp (class_to_idx_of class_names) dataset_paths g [] of
        Inl e \<Rightarrow> Inl e
      | Inr (all_image_tasks, g') \<Rightarrow> Inr (class_names, all_image_tasks))"

definition prepare_dataset ::
  "filesystem \<Rightarrow> imaging \<Rightarrow> 'g sampler \<Rightarrow> 'g \<Rightarrow> string list \<Rightarrow>
   exn + (real list list \<times> nat list \<times> string list)" where
  "prepare_dataset fs lib smp g dataset_paths =
     (case image_tasks fs smp g dataset_paths of Inl e \<Rightarrow> Inl e
      | Inr (class_names, all_image_tasks) \<Rightarrow>
          let results = map (\<lambda>(img_path, _). extract_features_worker lib img_path)
                          all_image_tasks
          in case assemble results all_image_tasks of (X, y) \<Rightarrow> Inr (X, y, class_names))"

subsection \<open>Training and the main function\<close>

text \<open>
  The classifier library: the stratified split, fitting the ensemble, the evaluation
  that follows, and writing the model and its reports. Each may raise. The calls made
  are recorded in order.
\<close>

type_synonym split = "real list list \<times> real list list \<times> nat list \<times> nat list"

record ('m, 'r) sklearn =
  train_test_split :: "real list list \<Rightarrow> nat list \<Rightarrow> exn + split"
  ensemble_fit :: "real list list \<Rightarrow> nat list \<Rightarrow> exn + 'm"
  evaluate :: "'m \<Rightarrow> split \<Rightarrow> string list \<Rightarrow> exn + 'r"
  save_model :: "'m \<Rightarrow> string list \<Rightarrow> 'r \<Rightarrow> exn + unit"

datatype call =
    SplitCall "real list list" "nat list"
  | FitCall "real list list" "nat list"
  | SaveCall "string list"

definition train_model ::
  "('m, 'r) sklearn \<Rightarrow> real list list \<Rightarrow> nat list \<Rightarrow> string list \<Rightarrow>
   call list \<times> (exn + 'm \<times> 'r)" where
  "train_model sk X y class_names =
     (case train_test_split sk X y of Inl e \<Rightarrow> ([SplitCall X y], Inl e)
      | Inr (X_train, X_test, y_train, y_test) \<Rightarrow>
     (case ensemble_fit sk X_train y_train of
        Inl e \<Rightarrow> ([SplitCall X y, FitCall X_train y_train], Inl e)
      | Inr ensemble \<Rightarrow>
     (case evaluate sk ensemble (X_train, X_test, y_train, y_test) class_names of
        Inl e \<Rightarrow> ([SplitCall X y, FitCall X_train y_train], Inl e)
      | Inr report \<Rightarrow> ([SplitCall X y, FitCall X_train y_train], Inr (ensemble, report)))))"

definition default_paths :: "string list" where
  "default_paths = [''dataset'', path_join (path_join ''public'' ''archive (4)'') ''data'']"

definition main ::
  "filesystem \<Rightarrow> imaging \<Rightarrow> 'g sampler \<Rightarrow> 'g \<Rightarrow> ('m, 'r) sklearn \<Rightarrow> call list \<times> (exn + unit)"
  where
  \<comment> \<open>the trainer's constructor creates the output directory; then prepare, train, save\<close>
  "main fs lib smp g sk =
     (case makedirs fs OUTPUT_DIR of Inl e \<Rightarrow> ([], Inl e) | Inr _ \<Rightarrow>
     (case prepare_dataset fs lib smp g default_paths of Inl e \<Rightarrow> ([], Inl e)
      | Inr (X, y, class_names) \<Rightarrow>
     (case train_model sk X y class_names of
        (calls, Inl e) \<Rightarrow> (calls, Inl e)
      | (calls, Inr (model, report)) \<Rightarrow>
          (case save_model sk model class_names report of
             Inl e \<Rightarrow> (calls @ [SaveCall class_names], Inl e)
           | Inr _ \<Rightarrow> (calls @ [SaveCall class_names], Inr ())))))"

section \<open>Notions used to state the properties\<close>

subsection \<open>The Laplacian as the specification words it\<close>

definition clamp_index :: "nat \<Rightarrow> int \<Rightarrow> nat" where
  \<comment> \<open>edge replication: an index outside \<open>0..n-1\<close> reads the nearest entry\<close>
  "clamp_index n i = nat (max 0 (min (int n - 1) i))"

definition replicated :: "real list list \<Rightarrow> int \<Rightarrow> int \<Rightarrow> real" where
  "replicated a i j = (let row = a ! clamp_index (length a) i in
     row ! clamp_index (length row) j)"

definition spec_laplacian :: "real list list \<Rightarrow> real list list" where
  \<comment> \<open>centre \<open>-4\<close>, the four orthogonal neighbours \<open>+1\<close>, corners 0, edges replicated\<close>
  "spec_laplacian a =
     map (\<lambda>i. map (\<lambda>j.
         - 4 * replicated a (int i) (int j)
         + replicated a (int i - 1) (int j) + replicated a (int i + 1) (int j)
         + replicated a (int i) (int j - 1) + replicated a (int i) (int j + 1))
       [0..<length (a ! i)]) [0..<length a]"

subsection \<open>Directory trees and samplers\<close>

definition class_dir_names :: "filesystem \<Rightarrow> string \<Rightarrow> string set" where
  \<comment> \<open>the names of the class subdirectories of a root\<close>
  "class_dir_names fs r =
     (case listdir fs r of Inl e \<Rightarrow> {}
      | Inr names \<Rightarrow> {d \<in> set names. isdir fs (path_join r d)})"

definition roots_union :: "filesystem \<Rightarrow> string list \<Rightarrow> string set" where
  \<comment> \<open>the union of the class-subdirectory names of the roots that exist\<close>
  "roots_union fs paths = (\<Union>r \<in> {r \<in> set paths. path_exists fs r}. class_dir_names fs r)"

definition same_tree :: "filesystem \<Rightarrow> filesystem \<Rightarrow> bool" where
  \<comment> \<open>the same tree, its directories possibly listed in another order\<close>
  "same_tree fs fs' \<longleftrightarrow>
     (\<forall>p. path_exists fs' p = path_exists fs p \<and> isdir fs' p = isdir fs p \<and>
          (case listdir fs p of
             Inl e \<Rightarrow> listdir fs' p = Inl e
           | Inr names \<Rightarrow> (\<exists>names'. listdir fs' p = Inr names' \<and> mset names' = mset names)))"

definition labels_below :: "nat \<Rightarrow> (string \<times> nat) list \<Rightarrow> bool" where
  \<comment> \<open>every task's label is an index below \<open>n\<close>\<close>
  "labels_below n tasks \<longleftrightarrow> list_all (\<lambda>t. snd t < n) tasks"

definition sampler_ok :: "'g sampler \<Rightarrow> bool" where
  \<comment> \<open>what \<^verbatim>\<open>random.sample(population, k)\<close> returns for \<open>k\<close> up to the population's size:
      the entries at \<open>k\<close> distinct positions\<close>
  "sampler_ok smp \<longleftrightarrow>
     (\<forall>g xs k. k \<le> length xs \<longrightarrow>
        (\<exists>ps. length ps = k \<and> distinct ps \<and> list_all (\<lambda>i. i < length xs) ps \<and>
              fst (smp g xs k) = map (nth xs) ps))"

subsection \<open>Sample inputs\<close>

definition leaf_lib :: imaging where
  \<comment> \<open>every file decodes to a green image, except one corrupt file\<close>
  "leaf_lib = \<lparr>
     open_rgb = (\<lambda>p. if p = ''dataset/blight/c.png'' then Inl DecodeError
        else Inr \<lparr>width = 1, height = 1, getpixel = (\<lambda>x y. RGB 0 255 0)\<rparr>),
     resample = (\<lambda>img w h x y. getpixel img 0 0),
     rgb_to_hsv = (\<lambda>p. p)\<rparr>"

definition farm_fs :: filesystem where
  "farm_fs = \<lparr>
     path_exists = (\<lambda>p. p = ''dataset''),
     isdir = (\<lambda>p. p = ''dataset/healthy'' \<or> p = ''dataset/blight''),
     listdir = (\<lambda>p.
       if p = ''dataset'' then Inr [''healthy'', ''notes.txt'', ''blight'']
       else if p = ''dataset/healthy'' then Inr [''a.jpg'', ''b.JPG'']
       else if p = ''dataset/blight'' then Inr [''c.png'', ''readme.md'', ''d.jpeg'']
       else Inl OSError),
     makedirs = (\<lambda>p. Inr ())\<rparr>"

definition farm_fs' :: filesystem where
  \<comment> \<open>the same tree, the root listed in another order\<close>
  "farm_fs' = farm_fs\<lparr>listdir := (\<lambda>p.
       if p = ''dataset'' then Inr [''blight'', ''healthy'', ''notes.txt'']
       else listdir farm_fs p)\<rparr>"

definition no_fs :: filesystem where
  \<comment> \<open>no root exists\<close>
  "no_fs = \<lparr>path_exists = (\<lambda>p. False), isdir = (\<lambda>p. False),
     listdir = (\<lambda>p. Inl OSError), makedirs = (\<lambda>p. Inr ())\<rparr>"

definition first_k :: "nat sampler" where
  \<comment> \<open>a sampler that picks the first \<open>k\<close> entries\<close>
  "first_k g xs k = (take k xs, Suc g)"

definition crowded_fs :: filesystem where
  \<comment> \<open>one class directory with 1001 image files\<close>
  "crowded_fs = \<lparr>
     path_exists = (\<lambda>p. p = ''dataset''),
     isdir = (\<lambda>p. p = ''dataset/rust''),
     listdir = (\<lambda>p.
       if p = ''dataset'' then Inr [''rust'']
       else if p = ''dataset/rust'' then Inr (map (\<lambda>i. replicate i CHR ''a'' @ ''.jpg'') [0..<1001])
       else Inl OSError),
     makedirs = (\<lambda>p. Inr ())\<rparr>"

definition strict_sk :: "(unit, unit) sklearn" where
  \<comment> \<open>a classifier library whose split refuses an empty dataset\<close>
  "strict_sk = \<lparr>
     train_test_split = (\<lambda>X y. if X = [] then Inl ValueError else Inr (X, X, y, y)),
     ensemble_fit = (\<lambda>X y. Inr ()),
     evaluate = (\<lambda>m s names. Inr ()),
     save_model = (\<lambda>m names r. Inr ())\<rparr>"

section \<open>Properties of the feature extractor\<close>

subsection \<open>Counting pixels\<close>

lemma count_true_map: "count_true (map (map P) a) = length (filter P (concat a))"
  by (simp add: count_true_def map_concat[symmetric] filter_map o_def)

lemma length_concat_valid: "valid_image a \<Longrightarrow> length (concat a) = IMG_SIZE * IMG_SIZE"
proof -
  assume v: "valid_image a"
  then have "map length a = map (\<lambda>_. IMG_SIZE) a" and "length a = IMG_SIZE"
    by (auto simp: valid_image_def list_all_iff)
  then have "map length a = replicate IMG_SIZE IMG_SIZE"
    by (simp add: map_replicate_const)
  then show ?thesis by (simp add: length_concat sum_list_replicate)
qed

lemma valid_image_uniform: "valid_image (replicate IMG_SIZE (replicate IMG_SIZE p))"
  by (simp add: valid_image_def list_all_iff)

lemma filter_disjoint_le:
  "(\<And>x. x \<in> set xs \<Longrightarrow> \<not> (P x \<and> Q x)) \<Longrightarrow>
   length (filter P xs) + length (filter Q xs) \<le> length xs"
  by (induction xs) auto

lemma masks_disjoint_pixel:
  "\<not> ((chan0 p > 100 \<and> chan1 p > 50 \<and> chan1 p < 150 \<and> chan2 p < 100) \<and>
      (chan0 p > 150 \<and> chan1 p > 150 \<and> chan2 p < 100))"
  by auto

subsection \<open>Brown and yellow pixels\<close>

text \<open>
  Claim C10. In an image of the extractor's size, no pixel is in both the brown mask
  (red above 100, green strictly between 50 and 150, blue below 100) and the yellow mask
  (red above 150, green above 150, blue below 100); hence the brown ratio and the yellow
  ratio add up to at most 1.
\<close>

theorem brown_yellow_disjoint:
  assumes "valid_image a"
  shows "(\<forall>i < length a. \<forall>j < length (a ! i).
            \<not> (brown_mask a ! i ! j \<and> yellow_mask a ! i ! j)) \<and>
         brown_ratio a + yellow_ratio a \<le> 1"
proof
  show "\<forall>i < length a. \<forall>j < length (a ! i). \<not> (brown_mask a ! i ! j \<and> yellow_mask a ! i ! j)"
    by (auto simp: brown_mask_def yellow_mask_def)
next
  have n: "length (concat a) = IMG_SIZE * IMG_SIZE"
    using assms by (rule length_concat_valid)
  have "count_true (brown_mask a) + count_true (yellow_mask a) \<le> length (concat a)"
    unfolding brown_mask_def yellow_mask_def count_true_map
    by (rule filter_disjoint_le) (use masks_disjoint_pixel in blast)
  then have "real (count_true (brown_mask a)) + real (count_true (yellow_mask a))
      \<le> real (IMG_SIZE * IMG_SIZE)"
    unfolding n by (metis of_nat_add of_nat_le_iff)
  moreover have "0 < real (IMG_SIZE * IMG_SIZE)" by (simp add: IMG_SIZE_def)
  ultimately show "brown_ratio a + yellow_ratio a \<le> 1"
    unfolding brown_ratio_def yellow_ratio_def
    by (simp add: add_divide_distrib[symmetric] del: of_nat_mult of_nat_add)
qed

theorem brown_yellow_disjoint_witness:
  "valid_image (replicate IMG_SIZE (replicate IMG_SIZE (RGB 200 100 50))) \<and>
   brown_ratio (replicate IMG_SIZE (replicate IMG_SIZE (RGB 200 100 50))) +
   yellow_ratio (replicate IMG_SIZE (replicate IMG_SIZE (RGB 200 100 50))) \<le> 1"
proof -
  have h: "valid_image (replicate IMG_SIZE (replicate IMG_SIZE (RGB 200 100 50)))"
    by (rule valid_image_uniform)
  show ?thesis using h brown_yellow_disjoint [OF h] by simp
qed

subsection \<open>The three ratio features\<close>

lemma sum_values_pixels:
  "sum_list (concat (map (\<lambda>p. u8 [chan0 p, chan1 p, chan2 p]) ps)) =
   sum_list (u8 (map chan0 ps)) + sum_list (u8 (map chan1 ps)) + sum_list (u8 (map chan2 ps))"
  by (induction ps) (simp_all add: u8_def)

lemma length_values_pixels:
  "length (concat (map (\<lambda>p. u8 [chan0 p, chan1 p, chan2 p]) ps)) = 3 * length ps"
  by (induction ps) (simp_all add: u8_def)

lemma sum_all_values:
  "sum_list (all_values a) =
   sum_list (u8 (plane chan0 a)) + sum_list (u8 (plane chan1 a)) + sum_list (u8 (plane chan2 a))"
  by (simp add: all_values_def plane_def sum_values_pixels)

lemma length_all_values: "length (all_values a) = 3 * length (concat a)"
  by (simp add: all_values_def length_values_pixels)

lemma sum_u8_nonneg: "0 \<le> sum_list (u8 xs)"
  by (auto simp: u8_def simp del: of_nat_unat intro!: sum_list_nonneg)

lemma length_u8_plane: "length (u8 (plane c a)) = length (concat a)"
  by (simp add: u8_def plane_def)

lemma count_ratio_bounds:
  assumes "valid_image a"
  shows "0 \<le> real (count_true (map (map P) a)) / real (IMG_SIZE * IMG_SIZE) \<and>
         real (count_true (map (map P) a)) / real (IMG_SIZE * IMG_SIZE) \<le> 1"
proof -
  have "count_true (map (map P) a) \<le> length (concat a)"
    by (simp add: count_true_map)
  then have "count_true (map (map P) a) \<le> IMG_SIZE * IMG_SIZE"
    using assms by (simp add: length_concat_valid)
  then have "real (count_true (map (map P) a)) \<le> real (IMG_SIZE * IMG_SIZE)"
    by (simp only: of_nat_le_iff)
  moreover have "0 < real (IMG_SIZE * IMG_SIZE)" by (simp add: IMG_SIZE_def)
  ultimately show ?thesis by (simp del: of_nat_mult)
qed

lemma green_ratio_bounds:
  assumes "valid_image a"
  shows "0 \<le> green_ratio a \<and> green_ratio a < 3"
proof -
  define n where "n = real (length (concat a))"
  define sr where "sr = sum_list (u8 (plane chan0 a))"
  define sg where "sg = sum_list (u8 (plane chan1 a))"
  define sb where "sb = sum_list (u8 (plane chan2 a))"
  have n: "0 < n" using assms by (simp add: n_def length_concat_valid IMG_SIZE_def)
  have nn: "0 \<le> sr" "0 \<le> sg" "0 \<le> sb"
    by (simp_all add: sr_def sg_def sb_def sum_u8_nonneg)
  have g: "np_mean (u8 (plane chan1 a)) = sg / n"
    by (simp add: np_mean_def sg_def n_def length_u8_plane)
  have m: "np_mean (all_values a) = (sr + sg + sb) / (3 * n)"
    by (simp add: np_mean_def sum_all_values length_all_values sr_def sg_def sb_def n_def)
  define D where "D = (sr + sg + sb) / (3 * n) + 1 / 10 ^ 6"
  have d: "0 < D"
    unfolding D_def using n nn by (simp add: add_nonneg_pos)
  have "sg / n \<le> 3 * ((sr + sg + sb) / (3 * n))"
    using n nn by (simp add: field_simps)
  also have "\<dots> < 3 * D" unfolding D_def by simp
  finally have "sg / n / D < 3"
    using d by (simp only: pos_divide_less_eq)
  moreover have "0 \<le> sg / n / D"
    using d n nn by (intro divide_nonneg_nonneg) simp_all
  ultimately show ?thesis by (simp only: green_ratio_def g m D_def)
qed

lemma concat_uniform: "concat (replicate n (replicate m x)) = replicate (n * m) x"
  by (induction n) (simp_all add: replicate_add)

lemma np_mean_replicate: "0 < n \<Longrightarrow> np_mean (replicate n x) = x"
  by (simp add: np_mean_def sum_list_replicate)

lemma green_ratio_uniform:
  "green_ratio (replicate IMG_SIZE (replicate IMG_SIZE (RGB r g b))) =
   real (unat g) / ((real (unat r) + real (unat g) + real (unat b)) / 3 + 1 / 10 ^ 6)"
proof -
  let ?a = "replicate IMG_SIZE (replicate IMG_SIZE (RGB r g b))"
  have n: "length (concat ?a) = IMG_SIZE * IMG_SIZE" "0 < IMG_SIZE * IMG_SIZE"
    by (simp_all add: concat_uniform IMG_SIZE_def)
  have p: "u8 (plane c ?a) = replicate (IMG_SIZE * IMG_SIZE) (real (unat (c (RGB r g b))))" for c
    by (simp add: u8_def plane_def concat_uniform)
  have "np_mean (all_values ?a) = (real (unat r) + real (unat g) + real (unat b)) / 3"
    using n(2) by (simp add: np_mean_def sum_all_values length_all_values p n(1)
        sum_list_replicate field_simps del: of_nat_mult)
  moreover have "np_mean (u8 (plane chan1 ?a)) = real (unat g)"
    using n(2) by (simp add: p np_mean_replicate del: of_nat_mult)
  ultimately show ?thesis by (simp add: green_ratio_def)
qed

text \<open>
  Claim C3, as stated, would put the green ratio in \<open>[0, 1]\<close> as well. The green ratio
  is the green mean over the mean of all three channels, so an all-green image takes it
  above 1.
\<close>

theorem green_ratio_above_one:
  "valid_image (replicate IMG_SIZE (replicate IMG_SIZE (RGB 0 255 0))) \<and>
   \<not> green_ratio (replicate IMG_SIZE (replicate IMG_SIZE (RGB 0 255 0))) \<le> 1"
  by (simp add: valid_image_uniform green_ratio_uniform)

lemma green_denominator_pos: "0 < np_mean (all_values a) + 1 / 10 ^ 6"
proof -
  have "0 \<le> sum_list (all_values a)"
    unfolding sum_all_values by (intro add_nonneg_nonneg sum_u8_nonneg)
  then have "0 \<le> np_mean (all_values a)"
    by (simp add: np_mean_def)
  then show ?thesis by simp
qed

lemma green_ratio_above_one_iff:
  "1 < green_ratio a \<longleftrightarrow>
   np_mean (all_values a) + 1 / 10 ^ 6 < np_mean (u8 (plane chan1 a))"
  unfolding green_ratio_def
  using green_denominator_pos [of a] by (simp only: pos_less_divide_eq mult_1)

text \<open>
  Claim C3, amended. For every image of the extractor's size, the brown ratio and the
  yellow ratio lie in \<open>[0, 1]\<close>; the green ratio is at least 0 and below 3, and it is
  above 1 exactly when the mean of the green channel is above the mean of all three
  channels plus \<open>1e-6\<close>.
\<close>

theorem ratio_features_bounds:
  assumes "valid_image a"
  shows "0 \<le> brown_ratio a \<and> brown_ratio a \<le> 1 \<and>
         0 \<le> yellow_ratio a \<and> yellow_ratio a \<le> 1 \<and>
         0 \<le> green_ratio a \<and> green_ratio a < 3 \<and>
         (1 < green_ratio a \<longleftrightarrow>
            np_mean (all_values a) + 1 / 10 ^ 6 < np_mean (u8 (plane chan1 a)))"
  using count_ratio_bounds [OF assms] green_ratio_bounds [OF assms]
    green_ratio_above_one_iff [of a]
  unfolding brown_ratio_def yellow_ratio_def brown_mask_def yellow_mask_def by blast

theorem ratio_features_bounds_witness:
  "valid_image (replicate IMG_SIZE (replicate IMG_SIZE (RGB 0 255 0))) \<and>
   green_ratio (replicate IMG_SIZE (replicate IMG_SIZE (RGB 0 255 0))) < 3 \<and>
   brown_ratio (replicate IMG_SIZE (replicate IMG_SIZE (RGB 0 255 0))) \<le> 1"
proof -
  have h: "valid_image (replicate IMG_SIZE (replicate IMG_SIZE (RGB 0 255 0)))"
    by (rule valid_image_uniform)
  show ?thesis using h ratio_features_bounds [OF h] by simp
qed

subsection \<open>The layout of the feature vector\<close>

lemma length_hist_of [simp]: "length (hist_of c a) = 64"
  by (simp add: hist_of_def np_histogram_def)

lemma length_axis01 [simp]: "length (axis01 f a) = 3"
  by (simp add: axis01_def)

lemma length_reduce3: "reduce3 f a = Inr xs \<Longrightarrow> length xs = 3"
  by (auto simp: reduce3_def u8_def split: sum.splits)

lemma valid_rgb_array: "valid_image (rgb_array lib img0)"
  by (simp add: rgb_array_def np_array_def resize_def valid_image_def list_all_iff)

lemma np_min_nonempty: "a \<noteq> [] \<Longrightarrow> \<exists>v. np_min a = Inr v"
  by (cases a) (simp_all add: np_min_def)

lemma np_max_nonempty: "a \<noteq> [] \<Longrightarrow> \<exists>v. np_max a = Inr v"
  by (cases a) (simp_all add: np_max_def)

lemma plane_nonempty: "valid_image a \<Longrightarrow> plane c a \<noteq> []"
proof -
  assume "valid_image a"
  then have "length (plane c a) = IMG_SIZE * IMG_SIZE"
    by (simp add: plane_def length_concat_valid)
  then show ?thesis by (auto simp: IMG_SIZE_def)
qed

lemma reduce3_total:
  assumes "\<And>c. \<exists>v. f (plane c a) = Inr v"
  shows "\<exists>xs. reduce3 f a = Inr xs"
proof -
  obtain r g b where "f (plane chan0 a) = Inr r" "f (plane chan1 a) = Inr g"
    "f (plane chan2 a) = Inr b"
    using assms by metis
  then show ?thesis by (simp add: reduce3_def)
qed

lemma reduce3_min_valid: "valid_image a \<Longrightarrow> \<exists>xs. reduce3 np_min a = Inr xs"
  by (rule reduce3_total) (simp add: np_min_nonempty plane_nonempty)

lemma reduce3_max_valid: "valid_image a \<Longrightarrow> \<exists>xs. reduce3 np_max a = Inr xs"
  by (rule reduce3_total) (simp add: np_max_nonempty plane_nonempty)

lemma worker_body_opened:
  assumes "open_rgb lib p = Inr img0"
  shows "\<exists>mn mx. reduce3 np_min (rgb_array lib img0) = Inr mn \<and>
           reduce3 np_max (rgb_array lib img0) = Inr mx \<and>
           worker_body lib p = Inr (
             hist_of chan0 (rgb_array lib img0) @ hist_of chan1 (rgb_array lib img0) @
             hist_of chan2 (rgb_array lib img0) @
             axis01 np_mean (rgb_array lib img0) @ axis01 np_std (rgb_array lib img0) @
             axis01 np_median (rgb_array lib img0) @ mn @ mx @
             axis01 np_mean (hsv_array lib img0) @ axis01 np_std (hsv_array lib img0) @
             [edge_mean (rgb_array lib img0), edge_std (rgb_array lib img0)] @
             [green_ratio (rgb_array lib img0), brown_ratio (rgb_array lib img0),
              yellow_ratio (rgb_array lib img0)] @
             [spatial_variance (rgb_array lib img0)])"
proof -
  obtain mn where mn: "reduce3 np_min (rgb_array lib img0) = Inr mn"
    using reduce3_min_valid [OF valid_rgb_array] by blast
  obtain mx where mx: "reduce3 np_max (rgb_array lib img0) = Inr mx"
    using reduce3_max_valid [OF valid_rgb_array] by blast
  have "worker_body lib p = Inr (
             hist_of chan0 (rgb_array lib img0) @ hist_of chan1 (rgb_array lib img0) @
             hist_of chan2 (rgb_array lib img0) @
             axis01 np_mean (rgb_array lib img0) @ axis01 np_std (rgb_array lib img0) @
             axis01 np_median (rgb_array lib img0) @ mn @ mx @
             axis01 np_mean (hsv_array lib img0) @ axis01 np_std (hsv_array lib img0) @
             [edge_mean (rgb_array lib img0), edge_std (rgb_array lib img0)] @
             [green_ratio (rgb_array lib img0), brown_ratio (rgb_array lib img0),
              yellow_ratio (rgb_array lib img0)] @
             [spatial_variance (rgb_array lib img0)])"
    using mn mx unfolding worker_body_def assms rgb_array_def hsv_array_def
    by (simp add: Let_def)
  with mn mx show ?thesis by blast
qed

lemma worker_succeeds:
  "open_rgb lib p = Inr img0 \<Longrightarrow> \<exists>v. extract_features_worker lib p = Some v"
  using worker_body_opened [of lib p img0] by (auto simp: extract_features_worker_def)

lemma worker_fails:
  "open_rgb lib p = Inl e \<Longrightarrow> extract_features_worker lib p = None"
  by (simp add: extract_features_worker_def worker_body_def)

text \<open>
  Claim C4. Whenever extraction succeeds, the vector has exactly 219 entries, in this
  order: the red, green and blue histograms (64 bins each, offsets 0, 64, 128); the mean,
  standard deviation, median, minimum and maximum of the three channels (offsets 192 to
  206); the mean and standard deviation of the three HSV channels (offsets 207 to 212);
  the two edge statistics (213, 214); the green, brown and yellow ratios (215 to 217);
  the spatial variance (218).
\<close>

theorem feature_vector_layout:
  assumes "extract_features_worker lib p = Some v"
  shows "length v = 219 \<and> (\<exists>img0. open_rgb lib p = Inr img0 \<and>
     (let a = rgb_array lib img0; hsv = hsv_array lib img0 in
       take 64 v = hist_of chan0 a \<and> take 64 (drop 64 v) = hist_of chan1 a \<and>
       take 64 (drop 128 v) = hist_of chan2 a \<and>
       take 3 (drop 192 v) = axis01 np_mean a \<and> take 3 (drop 195 v) = axis01 np_std a \<and>
       take 3 (drop 198 v) = axis01 np_median a \<and>
       reduce3 np_min a = Inr (take 3 (drop 201 v)) \<and>
       reduce3 np_max a = Inr (take 3 (drop 204 v)) \<and>
       take 3 (drop 207 v) = axis01 np_mean hsv \<and> take 3 (drop 210 v) = axis01 np_std hsv \<and>
       take 2 (drop 213 v) = [edge_mean a, edge_std a] \<and>
       take 3 (drop 215 v) = [green_ratio a, brown_ratio a, yellow_ratio a] \<and>
       drop 218 v = [spatial_variance a]))"
proof -
  obtain img0 where o: "open_rgb lib p = Inr img0"
    using assms worker_fails [of lib p] by (cases "open_rgb lib p") auto
  from worker_body_opened [OF o] obtain mn mx where
    mn: "reduce3 np_min (rgb_array lib img0) = Inr mn" and
    mx: "reduce3 np_max (rgb_array lib img0) = Inr mx" and
    b: "worker_body lib p = Inr (
             hist_of chan0 (rgb_array lib img0) @ hist_of chan1 (rgb_array lib img0) @
             hist_of chan2 (rgb_array lib img0) @
             axis01 np_mean (rgb_array lib img0) @ axis01 np_std (rgb_array lib img0) @
             axis01 np_median (rgb_array lib img0) @ mn @ mx @
             axis01 np_mean (hsv_array lib img0) @ axis01 np_std (hsv_array lib img0) @
             [edge_mean (rgb_array lib img0), edge_std (rgb_array lib img0)] @
             [green_ratio (rgb_array lib img0), brown_ratio (rgb_array lib img0),
              yellow_ratio (rgb_array lib img0)] @
             [spatial_variance (rgb_array lib img0)])"
    by blast
  have l: "length mn = 3" "length mx = 3"
    using mn mx by (auto dest: length_reduce3)
  have v: "v = hist_of chan0 (rgb_array lib img0) @ hist_of chan1 (rgb_array lib img0) @
             hist_of chan2 (rgb_array lib img0) @
             axis01 np_mean (rgb_array lib img0) @ axis01 np_std (rgb_array lib img0) @
             axis01 np_median (rgb_array lib img0) @ mn @ mx @
             axis01 np_mean (hsv_array lib img0) @ axis01 np_std (hsv_array lib img0) @
             [edge_mean (rgb_array lib img0), edge_std (rgb_array lib img0)] @
             [green_ratio (rgb_array lib img0), brown_ratio (rgb_array lib img0),
              yellow_ratio (rgb_array lib img0)] @
             [spatial_variance (rgb_array lib img0)]"
    using assms b by (simp add: extract_features_worker_def)
  have len: "length v = 219" unfolding v by (simp add: l)
  have "let a = rgb_array lib img0; hsv = hsv_array lib img0 in
       take 64 v = hist_of chan0 a \<and> take 64 (drop 64 v) = hist_of chan1 a \<and>
       take 64 (drop 128 v) = hist_of chan2 a \<and>
       take 3 (drop 192 v) = axis01 np_mean a \<and> take 3 (drop 195 v) = axis01 np_std a \<and>
       take 3 (drop 198 v) = axis01 np_median a \<and>
       reduce3 np_min a = Inr (take 3 (drop 201 v)) \<and>
       reduce3 np_max a = Inr (take 3 (drop 204 v)) \<and>
       take 3 (drop 207 v) = axis01 np_mean hsv \<and> take 3 (drop 210 v) = axis01 np_std hsv \<and>
       take 2 (drop 213 v) = [edge_mean a, edge_std a] \<and>
       take 3 (drop 215 v) = [green_ratio a, brown_ratio a, yellow_ratio a] \<and>
       drop 218 v = [spatial_variance a]"
    unfolding v Let_def by (simp add: l mn mx)
  with len o show ?thesis by blast
qed

theorem feature_vector_layout_witness:
  "extract_features_worker leaf_lib ''dataset/healthy/a.jpg'' =
     Some (the (extract_features_worker leaf_lib ''dataset/healthy/a.jpg'')) \<and>
   length (the (extract_features_worker leaf_lib ''dataset/healthy/a.jpg'')) = 219"
proof -
  have "open_rgb leaf_lib ''dataset/healthy/a.jpg'' =
      Inr \<lparr>width = 1, height = 1, getpixel = (\<lambda>x y. RGB 0 255 0)\<rparr>"
    by (simp add: leaf_lib_def)
  then have h: "extract_features_worker leaf_lib ''dataset/healthy/a.jpg'' =
      Some (the (extract_features_worker leaf_lib ''dataset/healthy/a.jpg''))"
    using worker_succeeds by fastforce
  show ?thesis using h feature_vector_layout [OF h] by simp
qed

subsection \<open>Training-time and inference-time extraction\<close>

text \<open>
  Claim C1. On every path, with the same image library, the extractor written to
  \<^verbatim>\<open>predict.py\<close> fails exactly when the training-time worker fails, and otherwise
  returns the one-row matrix whose row is the worker's vector, entry for entry.
\<close>

theorem extraction_parity:
  "extract_features lib p = map_option (\<lambda>v. [v]) (extract_features_worker lib p)"
proof (cases "open_rgb lib p")
  case (Inl e)
  then show ?thesis
    by (simp add: extract_features_def predict_body_def extract_features_worker_def
        worker_body_def)
next
  case (Inr img0)
  then show ?thesis
    unfolding extract_features_def predict_body_def extract_features_worker_def
      worker_body_def
    by (simp add: Let_def IMG_SIZE_def predict_IMG_SIZE_def hist_of_def edge_mean_def
        edge_std_def edges_of_def gray_of_def laplacian_def green_ratio_def brown_ratio_def
        brown_mask_def yellow_ratio_def yellow_mask_def spatial_variance_def quad_means_def
        case_prod_unfold split: sum.splits)
qed

subsection \<open>The edge features\<close>

lemma reflect_is_clamp:
  assumes "0 < n" "- 1 \<le> i" "i \<le> int n"
  shows "reflect_index n i = clamp_index n i"
proof -
  consider "i = - 1" | "0 \<le> i \<and> i < int n" | "i = int n"
    using assms by linarith
  then show ?thesis
  proof cases
    case 1
    have "(- 1 :: int) mod (2 * int n) = 2 * int n - 1"
      using assms(1) by (simp add: zmod_minus1)
    with 1 assms(1) show ?thesis
      by (simp add: reflect_index_def clamp_index_def Let_def)
  next
    case 2
    then have "i mod (2 * int n) = i" by simp
    with 2 show ?thesis
      by (simp add: reflect_index_def clamp_index_def Let_def)
  next
    case 3
    then have "i mod (2 * int n) = i" using assms(1) by simp
    with 3 assms(1) show ?thesis
      by (simp add: reflect_index_def clamp_index_def Let_def)
  qed
qed

lemma clamp_index_less: "0 < n \<Longrightarrow> clamp_index n i < n"
  by (auto simp: clamp_index_def)

lemma reflected_is_replicated:
  assumes "length a = n" "0 < n" "\<And>r. r \<in> set a \<Longrightarrow> length r = n"
    "- 1 \<le> i" "i \<le> int n" "- 1 \<le> j" "j \<le> int n"
  shows "reflected a i j = replicated a i j"
proof -
  have "clamp_index n i < length a" using assms(1,2) by (simp add: clamp_index_less)
  then have "length (a ! clamp_index n i) = n" using assms(3) by simp
  then show ?thesis
    using assms by (simp add: reflected_def replicated_def Let_def reflect_is_clamp)
qed

lemma upt_3: "[0..<3] = [0, 1, 2]"
  by (simp add: upt_rec)

lemma convolve_laplacian_replicated:
  assumes "length a = n" "0 < n" "\<And>r. r \<in> set a \<Longrightarrow> length r = n"
  shows "ndimage_convolve a laplacian = spec_laplacian a"
  unfolding ndimage_convolve_def spec_laplacian_def
proof (rule map_cong [OF refl], rule map_cong [OF refl])
  fix i j
  assume i: "i \<in> set [0..<length a]" and j: "j \<in> set [0..<length (a ! i)]"
  then have "i < n" using assms(1) by simp
  moreover from i have "length (a ! i) = n" using assms(3) by simp
  ultimately have b: "i < n" "j < n" using j by simp_all
  have r: "reflected a (int i + d) (int j + e) = replicated a (int i + d) (int j + e)"
    if "d \<in> {- 1, 0, 1}" "e \<in> {- 1, 0, 1}" for d e
    using that b by (intro reflected_is_replicated [OF assms]) auto
  have "reflected a (int i + 1) (int j) = replicated a (int i + 1) (int j)"
    "reflected a (int i - 1) (int j) = replicated a (int i - 1) (int j)"
    "reflected a (int i) (int j + 1) = replicated a (int i) (int j + 1)"
    "reflected a (int i) (int j - 1) = replicated a (int i) (int j - 1)"
    "reflected a (int i) (int j) = replicated a (int i) (int j)"
    using r [of 1 0] r [of "- 1" 0] r [of 0 1] r [of 0 "- 1"] r [of 0 0] by simp_all
  then show "(\<Sum>di\<leftarrow>[0..<3]. \<Sum>dj\<leftarrow>[0..<3].
        real_of_int (laplacian ! di ! dj) * reflected a (int i + 1 - int di) (int j + 1 - int dj)) =
      - 4 * replicated a (int i) (int j)
         + replicated a (int i - 1) (int j) + replicated a (int i + 1) (int j)
         + replicated a (int i) (int j - 1) + replicated a (int i) (int j + 1)"
    by (simp add: upt_3 laplacian_def)
qed

lemma gray_of_mean:
  "gray_of a = map (map (\<lambda>p. (real (unat (chan0 p)) + real (unat (chan1 p)) +
      real (unat (chan2 p))) / 3)) a"
  by (simp add: gray_of_def np_mean_def u8_def)

text \<open>
  Claim C8. The gray image is the per-pixel mean of the three channels; the convolution
  the worker calls (kernel centre \<open>-4\<close>, orthogonal neighbours \<open>+1\<close>, corners 0, the
  library's default boundary mode) is, for this 3 by 3 kernel, the Laplacian with
  replicated edges; and the two features are the mean absolute value and the standard
  deviation of the result.
\<close>

theorem edge_features_laplacian:
  assumes "valid_image a"
  shows "gray_of a = map (map (\<lambda>p. (real (unat (chan0 p)) + real (unat (chan1 p)) +
            real (unat (chan2 p))) / 3)) a \<and>
         edges_of a = spec_laplacian (gray_of a) \<and>
         edge_mean a = np_mean (map abs (concat (spec_laplacian (gray_of a)))) \<and>
         edge_std a = np_std (concat (spec_laplacian (gray_of a)))"
proof -
  have "length (gray_of a) = IMG_SIZE" "0 < IMG_SIZE"
    "\<And>r. r \<in> set (gray_of a) \<Longrightarrow> length r = IMG_SIZE"
    using assms by (auto simp: gray_of_def valid_image_def list_all_iff IMG_SIZE_def)
  then have "edges_of a = spec_laplacian (gray_of a)"
    unfolding edges_of_def by (rule convolve_laplacian_replicated)
  then show ?thesis
    by (simp add: edge_mean_def edge_std_def gray_of_mean)
qed

theorem edge_features_laplacian_witness:
  "valid_image (replicate IMG_SIZE (replicate IMG_SIZE (RGB 10 20 30))) \<and>
   edges_of (replicate IMG_SIZE (replicate IMG_SIZE (RGB 10 20 30))) =
     spec_laplacian (gray_of (replicate IMG_SIZE (replicate IMG_SIZE (RGB 10 20 30))))"
proof -
  have h: "valid_image (replicate IMG_SIZE (replicate IMG_SIZE (RGB 10 20 30)))"
    by (rule valid_image_uniform)
  show ?thesis using h edge_features_laplacian [OF h] by simp
qed

section \<open>Properties of dataset assembly\<close>

subsection \<open>The class vocabulary\<close>

lemma class_dirs_names: "class_dirs fs r = Inr classes \<Longrightarrow> set classes = class_dir_names fs r"
  by (auto simp: class_dirs_def class_dir_names_def split: sum.splits)

lemma class_dirs_listed:
  "(\<exists>classes. class_dirs fs r = Inr classes) \<longleftrightarrow> (\<exists>names. listdir fs r = Inr names)"
  by (auto simp: class_dirs_def split: sum.splits)

lemma roots_union_Nil: "roots_union fs [] = {}"
  by (simp add: roots_union_def)

lemma roots_union_Cons:
  "roots_union fs (d # rest) =
   (if path_exists fs d then class_dir_names fs d \<union> roots_union fs rest
    else roots_union fs rest)"
  by (auto simp: roots_union_def)

lemma roots_union_cong:
  "set paths' = set paths \<Longrightarrow> roots_union fs paths' = roots_union fs paths"
  by (simp add: roots_union_def)

lemma finite_class_dir_names: "finite (class_dir_names fs r)"
  by (simp add: class_dir_names_def split: sum.splits)

lemma finite_roots_union: "finite (roots_union fs paths)"
  by (simp add: roots_union_def finite_class_dir_names)

lemma collect_classes_Inr:
  "collect_classes fs paths acc = Inr S \<Longrightarrow>
   S = acc \<union> roots_union fs paths \<and>
   (\<forall>r \<in> set paths. path_exists fs r \<longrightarrow> (\<exists>names. listdir fs r = Inr names))"
proof (induction paths arbitrary: acc)
  case Nil
  then show ?case by (simp add: roots_union_Nil)
next
  case (Cons d rest)
  show ?case
  proof (cases "path_exists fs d")
    case False
    with Cons.prems have "collect_classes fs rest acc = Inr S" by simp
    from Cons.IH [OF this] False show ?thesis by (simp add: roots_union_Cons)
  next
    case True
    with Cons.prems obtain classes where c: "class_dirs fs d = Inr classes"
      and r: "collect_classes fs rest (acc \<union> set classes) = Inr S"
      by (auto split: sum.splits)
    from c have l: "\<exists>names. listdir fs d = Inr names"
      using class_dirs_listed by blast
    from Cons.IH [OF r] True l class_dirs_names [OF c] show ?thesis
      by (simp add: roots_union_Cons Un_assoc)
  qed
qed

lemma collect_classes_ok:
  "(\<forall>r \<in> set paths. path_exists fs r \<longrightarrow> (\<exists>names. listdir fs r = Inr names)) \<Longrightarrow>
   collect_classes fs paths acc = Inr (acc \<union> roots_union fs paths)"
proof (induction paths arbitrary: acc)
  case Nil
  then show ?case by (simp add: roots_union_Nil)
next
  case (Cons d rest)
  have rest: "\<forall>r \<in> set rest. path_exists fs r \<longrightarrow> (\<exists>names. listdir fs r = Inr names)"
    using Cons.prems by simp
  show ?case
  proof (cases "path_exists fs d")
    case False
    with Cons.IH [OF rest] show ?thesis by (simp add: roots_union_Cons)
  next
    case True
    with Cons.prems have "\<exists>names. listdir fs d = Inr names" by simp
    then obtain classes where c: "class_dirs fs d = Inr classes"
      using class_dirs_listed [of fs d] by blast
    from Cons.IH [OF rest, of "acc \<union> set classes"] c True class_dirs_names [OF c]
    show ?thesis by (simp add: roots_union_Cons Un_assoc)
  qed
qed

lemma same_tree_at:
  assumes "same_tree fs fs'"
  shows "path_exists fs' p = path_exists fs p" "isdir fs' p = isdir fs p"
    "listdir fs p = Inl e \<Longrightarrow> listdir fs' p = Inl e"
    "listdir fs p = Inr names \<Longrightarrow> \<exists>names'. listdir fs' p = Inr names' \<and> mset names' = mset names"
proof -
  from assms have a: "path_exists fs' p = path_exists fs p \<and> isdir fs' p = isdir fs p \<and>
          (case listdir fs p of
             Inl e \<Rightarrow> listdir fs' p = Inl e
           | Inr names \<Rightarrow> (\<exists>names'. listdir fs' p = Inr names' \<and> mset names' = mset names))"
    unfolding same_tree_def by (rule spec)
  from a show "path_exists fs' p = path_exists fs p" by simp
  from a show "isdir fs' p = isdir fs p" by simp
  from a show "listdir fs p = Inl e \<Longrightarrow> listdir fs' p = Inl e" by simp
  from a show "listdir fs p = Inr names \<Longrightarrow>
      \<exists>names'. listdir fs' p = Inr names' \<and> mset names' = mset names" by simp
qed

lemma same_tree_names:
  assumes "same_tree fs fs'"
  shows "class_dir_names fs' r = class_dir_names fs r"
proof (cases "listdir fs r")
  case (Inl e)
  with same_tree_at(3) [OF assms] have "listdir fs' r = Inl e" by simp
  with Inl show ?thesis by (simp add: class_dir_names_def)
next
  case (Inr names)
  with same_tree_at(4) [OF assms] obtain names' where
    n: "listdir fs' r = Inr names'" "mset names' = mset names" by blast
  from n(2) have "set names' = set names" by (rule mset_eq_setD)
  with Inr n(1) show ?thesis
    by (simp add: class_dir_names_def same_tree_at(2) [OF assms])
qed

lemma same_tree_union:
  assumes "same_tree fs fs'"
  shows "roots_union fs' paths = roots_union fs paths"
  by (simp add: roots_union_def same_tree_names [OF assms] same_tree_at(1) [OF assms])

lemma same_tree_listed:
  assumes "same_tree fs fs'" "\<exists>names. listdir fs r = Inr names"
  shows "\<exists>names. listdir fs' r = Inr names"
  using assms(2) same_tree_at(4) [OF assms(1)] by blast

lemma idx_step_apply: "idx_step (i, name) m = m(name \<mapsto> i)"
  by (simp add: idx_step_def)

lemma fold_idx_other:
  "x \<notin> set names \<Longrightarrow> fold idx_step (enumerate k names) m0 x = m0 x"
  by (induction names arbitrary: k m0) (auto simp: idx_step_apply)

lemma fold_idx_Cons:
  "fold idx_step (enumerate k (x # xs)) m0 = fold idx_step (enumerate (Suc k) xs) (m0(x \<mapsto> k))"
  by (simp add: idx_step_apply)

lemma fold_idx_nth:
  "distinct names \<Longrightarrow> i < length names \<Longrightarrow>
   fold idx_step (enumerate k names) m0 (names ! i) = Some (k + i)"
proof (induction names arbitrary: k m0 i)
  case Nil
  then show ?case by simp
next
  case (Cons x xs)
  show ?case
  proof (cases i)
    case 0
    from Cons.prems have "x \<notin> set xs" by simp
    then have "fold idx_step (enumerate (Suc k) xs) (m0(x \<mapsto> k)) x = (m0(x \<mapsto> k)) x"
      by (rule fold_idx_other)
    then show ?thesis unfolding fold_idx_Cons 0 by simp
  next
    case (Suc j)
    have "fold idx_step (enumerate (Suc k) xs) (m0(x \<mapsto> k)) (xs ! j) = Some (Suc k + j)"
      using Cons.prems Suc by (intro Cons.IH) simp_all
    then show ?thesis unfolding fold_idx_Cons Suc
      by (simp only: nth_Cons_Suc add_Suc_right add_Suc)
  qed
qed

lemma fold_idx_range:
  "fold idx_step (enumerate k names) m0 x = Some i \<Longrightarrow>
   m0 x = Some i \<or> (k \<le> i \<and> i < k + length names)"
proof (induction names arbitrary: k m0)
  case Nil
  then show ?case by simp
next
  case (Cons y ys)
  from Cons.prems have "fold idx_step (enumerate (Suc k) ys) (m0(y \<mapsto> k)) x = Some i"
    unfolding fold_idx_Cons .
  from Cons.IH [OF this] have "(m0(y \<mapsto> k)) x = Some i \<or> Suc k \<le> i \<and> i < Suc k + length ys" .
  then show ?case by (auto split: if_splits)
qed

lemma class_to_idx_nth:
  "distinct names \<Longrightarrow> i < length names \<Longrightarrow> class_to_idx_of names (names ! i) = Some i"
  using fold_idx_nth [of names i 0 Map.empty] by (simp add: class_to_idx_of_def)

lemma class_to_idx_range: "class_to_idx_of names x = Some i \<Longrightarrow> i < length names"
  using fold_idx_range [of 0 names Map.empty x i] by (simp add: class_to_idx_of_def)

lemma fold_idx_dom:
  "x \<in> set names \<Longrightarrow> \<exists>i. fold idx_step (enumerate k names) m0 x = Some i"
proof (induction names arbitrary: k m0)
  case Nil
  then show ?case by simp
next
  case (Cons y ys)
  show ?case
  proof (cases "x \<in> set ys")
    case True
    then show ?thesis unfolding fold_idx_Cons by (rule Cons.IH)
  next
    case False
    with Cons.prems have "x = y" by simp
    from False have "fold idx_step (enumerate (Suc k) ys) (m0(y \<mapsto> k)) x = (m0(y \<mapsto> k)) x"
      by (rule fold_idx_other)
    with \<open>x = y\<close> show ?thesis unfolding fold_idx_Cons by simp
  qed
qed

lemma class_to_idx_dom: "x \<in> set names \<Longrightarrow> \<exists>i. class_to_idx_of names x = Some i"
  unfolding class_to_idx_of_def by (rule fold_idx_dom)

lemma same_farm: "same_tree farm_fs farm_fs'"
  by (auto simp: same_tree_def farm_fs_def farm_fs'_def)

text \<open>
  Claim C5. When the vocabulary pass succeeds, the vocabulary is the sorted list, without
  duplicates, of the union of the class-subdirectory names of the roots that exist. It is
  the same for every permutation of the root list and for every order in which the
  directories are listed, and each name's index is its position in that list.
\<close>

theorem vocabulary_sorted_union:
  assumes "vocabulary fs paths = Inr names" "mset paths' = mset paths" "same_tree fs fs'"
  shows "names = sorted_list_of_set (roots_union fs paths) \<and>
         sorted names \<and> distinct names \<and> set names = roots_union fs paths \<and>
         vocabulary fs' paths' = Inr names \<and>
         (\<forall>i < length names. class_to_idx_of names (names ! i) = Some i)"
proof -
  from assms(1) obtain S where S: "collect_classes fs paths {} = Inr S"
    and n: "names = sorted_list_of_set S"
    by (auto simp: vocabulary_def split: sum.splits)
  from collect_classes_Inr [OF S] have U: "S = roots_union fs paths"
    and l: "\<forall>r \<in> set paths. path_exists fs r \<longrightarrow> (\<exists>names. listdir fs r = Inr names)"
    by simp_all
  have sp: "set paths' = set paths" using assms(2) by (rule mset_eq_setD)
  have "\<forall>r \<in> set paths'. path_exists fs' r \<longrightarrow> (\<exists>names. listdir fs' r = Inr names)"
    using l sp same_tree_listed [OF assms(3)] same_tree_at(1) [OF assms(3)] by blast
  from collect_classes_ok [OF this, of "{}"]
  have "collect_classes fs' paths' {} = Inr (roots_union fs paths)"
    by (simp add: same_tree_union [OF assms(3)] roots_union_cong [OF sp])
  then have v: "vocabulary fs' paths' = Inr names"
    by (simp add: vocabulary_def n U)
  have d: "sorted names" "distinct names" "set names = roots_union fs paths"
    by (simp_all add: n U finite_roots_union)
  have "\<forall>i < length names. class_to_idx_of names (names ! i) = Some i"
    using d(2) by (simp add: class_to_idx_nth)
  with v n U d show ?thesis by simp
qed

theorem vocabulary_sorted_union_witness:
  "vocabulary farm_fs [''dataset'', ''missing''] = Inr [''blight'', ''healthy''] \<and>
   mset [''missing'', ''dataset''] = mset [''dataset'', ''missing''] \<and>
   same_tree farm_fs farm_fs' \<and>
   vocabulary farm_fs' [''missing'', ''dataset''] = Inr [''blight'', ''healthy'']"
proof -
  have a: "vocabulary farm_fs [''dataset'', ''missing''] = Inr [''blight'', ''healthy'']"
    by code_simp
  have b: "mset [''missing'', ''dataset''] = mset [''dataset'', ''missing'']"
    by simp
  have c: "same_tree farm_fs farm_fs'"
    by (rule same_farm)
  from vocabulary_sorted_union [OF a b c]
  have "vocabulary farm_fs' [''missing'', ''dataset''] = Inr [''blight'', ''healthy'']"
    by blast
  with a b c show ?thesis by blast
qed

subsection \<open>Features and labels\<close>

lemma assemble_step_None: "assemble_step all (i, None) (X, y) = (X, y)"
  by (simp add: assemble_step_def)

lemma assemble_step_Some: "assemble_step all (i, Some f) (X, y) = (X @ [f], y @ [snd (all ! i)])"
  by (simp add: assemble_step_def)

lemma assemble_fold:
  "length pre = k \<Longrightarrow>
   fold (assemble_step (pre @ ts)) (enumerate k (map w ts)) (X, y) =
     (X @ map (\<lambda>t. the (w t)) (filter (\<lambda>t. w t \<noteq> None) ts),
      y @ map snd (filter (\<lambda>t. w t \<noteq> None) ts))"
proof (induction ts arbitrary: pre k X y)
  case Nil
  then show ?case by simp
next
  case (Cons t ts)
  have a: "pre @ t # ts = (pre @ [t]) @ ts" by simp
  have n: "(pre @ t # ts) ! k = t" using Cons.prems by (auto simp: nth_append)
  have l: "length (pre @ [t]) = Suc k" using Cons.prems by simp
  show ?case
  proof (cases "w t")
    case None
    have "fold (assemble_step (pre @ t # ts)) (enumerate k (map w (t # ts))) (X, y) =
        fold (assemble_step ((pre @ [t]) @ ts)) (enumerate (Suc k) (map w ts)) (X, y)"
      by (simp add: None assemble_step_None)
    also have "\<dots> = (X @ map (\<lambda>t. the (w t)) (filter (\<lambda>t. w t \<noteq> None) ts),
        y @ map snd (filter (\<lambda>t. w t \<noteq> None) ts))"
      using l by (rule Cons.IH)
    finally show ?thesis by (simp add: None)
  next
    case (Some f)
    have "fold (assemble_step (pre @ t # ts)) (enumerate k (map w (t # ts))) (X, y) =
        fold (assemble_step ((pre @ [t]) @ ts)) (enumerate (Suc k) (map w ts))
          (X @ [f], y @ [snd t])"
      using n by (simp add: Some assemble_step_Some)
    also have "\<dots> = ((X @ [f]) @ map (\<lambda>t. the (w t)) (filter (\<lambda>t. w t \<noteq> None) ts),
        (y @ [snd t]) @ map snd (filter (\<lambda>t. w t \<noteq> None) ts))"
      using l by (rule Cons.IH)
    finally show ?thesis by (simp add: Some)
  qed
qed

lemma assemble_eq:
  "assemble (map w ts) ts =
     (map (\<lambda>t. the (w t)) (filter (\<lambda>t. w t \<noteq> None) ts), map snd (filter (\<lambda>t. w t \<noteq> None) ts))"
  using assemble_fold [of "[]" 0 ts w "[]" "[]"]
  by (simp add: assemble_def)

lemma prepare_dataset_eq:
  assumes "image_tasks fs smp g paths = Inr (class_names, tasks)"
  shows "prepare_dataset fs lib smp g paths =
     Inr (map (\<lambda>t. the (extract_features_worker lib (fst t)))
            (filter (\<lambda>t. extract_features_worker lib (fst t) \<noteq> None) tasks),
          map snd (filter (\<lambda>t. extract_features_worker lib (fst t) \<noteq> None) tasks),
          class_names)"
proof -
  show ?thesis
    unfolding prepare_dataset_def assms
    by (simp only: sum.case prod.case Let_def assemble_eq) (simp add: case_prod_unfold)
qed

lemma prepare_dataset_error:
  "image_tasks fs smp g paths = Inl e \<Longrightarrow> prepare_dataset fs lib smp g paths = Inl e"
  by (simp add: prepare_dataset_def)

lemma class_tasks_labels:
  assumes "class_tasks fs smp c2i rt cls g = Inr (new, g')"
    "\<And>x i. c2i x = Some i \<Longrightarrow> i < n"
  shows "labels_below n new"
proof -
  from assms(1) obtain idx files where "c2i cls = Some idx"
    "new = map (\<lambda>img_file. (path_join (path_join rt cls) img_file, idx)) files"
    by (auto simp: class_tasks_def Let_def split: option.splits sum.splits prod.splits)
  with assms(2) show ?thesis by (auto simp: labels_below_def list_all_iff)
qed

lemma scan_classes_labels:
  assumes "\<And>x i. c2i x = Some i \<Longrightarrow> i < n"
  shows "scan_classes fs smp c2i rt clss g tasks = Inr (tasks', g') \<Longrightarrow>
    labels_below n tasks \<Longrightarrow> labels_below n tasks'"
proof (induction clss arbitrary: g tasks)
  case Nil
  then show ?case by simp
next
  case (Cons cls rest)
  from Cons.prems(1) obtain new g1 where
    c: "class_tasks fs smp c2i rt cls g = Inr (new, g1)" and
    r: "scan_classes fs smp c2i rt rest g1 (tasks @ new) = Inr (tasks', g')"
    by (auto split: sum.splits)
  from class_tasks_labels [OF c assms] Cons.prems(2) have "labels_below n (tasks @ new)"
    by (simp add: labels_below_def)
  with r show ?case by (rule Cons.IH)
qed

lemma scan_roots_labels:
  assumes "\<And>x i. c2i x = Some i \<Longrightarrow> i < n"
  shows "scan_roots fs smp c2i paths g tasks = Inr (tasks', g') \<Longrightarrow>
    labels_below n tasks \<Longrightarrow> labels_below n tasks'"
proof (induction paths arbitrary: g tasks)
  case Nil
  then show ?case by simp
next
  case (Cons d rest)
  show ?case
  proof (cases "path_exists fs d")
    case False
    with Cons.prems(1) have "scan_roots fs smp c2i rest g tasks = Inr (tasks', g')" by simp
    from this Cons.prems(2) show ?thesis by (rule Cons.IH)
  next
    case True
    with Cons.prems(1) obtain clss t1 g1 where
      s: "scan_classes fs smp c2i d clss g tasks = Inr (t1, g1)" and
      r: "scan_roots fs smp c2i rest g1 t1 = Inr (tasks', g')"
      by (auto split: sum.splits)
    from scan_classes_labels [OF assms s Cons.prems(2)] have "labels_below n t1" .
    with r show ?thesis by (rule Cons.IH)
  qed
qed

lemma image_tasks_labels:
  assumes "image_tasks fs smp g paths = Inr (class_names, tasks)"
  shows "labels_below (length class_names) tasks"
proof -
  from assms obtain g' where
    s: "scan_roots fs smp (class_to_idx_of class_names) paths g [] = Inr (tasks, g')"
    by (auto simp: image_tasks_def split: sum.splits)
  have e: "labels_below (length class_names) []" by (simp add: labels_below_def)
  have b: "\<And>x i. class_to_idx_of class_names x = Some i \<Longrightarrow> i < length class_names"
    by (rule class_to_idx_range)
  from scan_roots_labels [OF b s e] show ?thesis .
qed

lemma farm_tasks:
  "image_tasks farm_fs first_k 0 [''dataset''] =
     Inr ([''blight'', ''healthy''],
          [(''dataset/healthy/a.jpg'', 1), (''dataset/healthy/b.JPG'', 1),
           (''dataset/blight/c.png'', 0), (''dataset/blight/d.jpeg'', 0)])"
  by code_simp

lemma leaf_worker:
  "extract_features_worker leaf_lib p = None \<longleftrightarrow> p = ''dataset/blight/c.png''"
proof (cases "p = ''dataset/blight/c.png''")
  case True
  then have "open_rgb leaf_lib p = Inl DecodeError" by (simp add: leaf_lib_def)
  from worker_fails [OF this] True show ?thesis by simp
next
  case False
  then have "open_rgb leaf_lib p =
      Inr \<lparr>width = 1, height = 1, getpixel = (\<lambda>x y. RGB 0 255 0)\<rparr>"
    by (simp add: leaf_lib_def)
  from worker_succeeds [OF this] False show ?thesis by auto
qed

lemma farm_dataset:
  "prepare_dataset farm_fs leaf_lib first_k 0 [''dataset''] =
     Inr ([the (extract_features_worker leaf_lib ''dataset/healthy/a.jpg''),
           the (extract_features_worker leaf_lib ''dataset/healthy/b.JPG''),
           the (extract_features_worker leaf_lib ''dataset/blight/d.jpeg'')],
          [1, 1, 0], [''blight'', ''healthy''])"
  by (simp add: prepare_dataset_eq [OF farm_tasks] leaf_worker)

text \<open>
  Claim C6. After assembly, the features and the labels have the same length, every label
  is an index into the vocabulary, and the two sequences are, pair by pair and in task
  order, the tasks whose extraction succeeded.
\<close>

theorem assembled_dataset_aligned:
  assumes "prepare_dataset fs lib smp g paths = Inr (X, y, class_names)"
  shows "length X = length y \<and> (\<forall>l \<in> set y. l < length class_names) \<and>
         (\<exists>tasks. image_tasks fs smp g paths = Inr (class_names, tasks) \<and>
            zip X y = map (\<lambda>(p, l). (the (extract_features_worker lib p), l))
              (filter (\<lambda>(p, l). extract_features_worker lib p \<noteq> None) tasks))"
proof -
  from assms obtain names tasks where t: "image_tasks fs smp g paths = Inr (names, tasks)"
    by (cases "image_tasks fs smp g paths") (auto simp: prepare_dataset_def)
  let ?ok = "\<lambda>t. extract_features_worker lib (fst t) \<noteq> None"
  from prepare_dataset_eq [OF t, of lib] assms have
    X: "X = map (\<lambda>t. the (extract_features_worker lib (fst t))) (filter ?ok tasks)" and
    y: "y = map snd (filter ?ok tasks)" and n: "names = class_names"
    by simp_all
  have len: "length X = length y" by (simp add: X y)
  have "labels_below (length class_names) tasks"
    using image_tasks_labels [OF t] unfolding n .
  then have lab: "\<forall>l \<in> set y. l < length class_names"
    by (auto simp: y labels_below_def list_all_iff)
  have "zip X y = map (\<lambda>t. (the (extract_features_worker lib (fst t)), snd t)) (filter ?ok tasks)"
    unfolding X y by (simp add: zip_map_map zip_same_conv_map)
  also have "\<dots> = map (\<lambda>(p, l). (the (extract_features_worker lib p), l))
              (filter (\<lambda>(p, l). extract_features_worker lib p \<noteq> None) tasks)"
    by (simp add: case_prod_unfold)
  finally show ?thesis using len lab t n by blast
qed

theorem assembled_dataset_aligned_witness:
  "prepare_dataset farm_fs leaf_lib first_k 0 [''dataset''] =
     Inr ([the (extract_features_worker leaf_lib ''dataset/healthy/a.jpg''),
           the (extract_features_worker leaf_lib ''dataset/healthy/b.JPG''),
           the (extract_features_worker leaf_lib ''dataset/blight/d.jpeg'')],
          [1, 1, 0], [''blight'', ''healthy'']) \<and>
   length [the (extract_features_worker leaf_lib ''dataset/healthy/a.jpg''),
           the (extract_features_worker leaf_lib ''dataset/healthy/b.JPG''),
           the (extract_features_worker leaf_lib ''dataset/blight/d.jpeg'')] =
     length [1, 1, 0 :: nat] \<and>
   list_all (\<lambda>l. l < length [''blight'', ''healthy'']) [1, 1, 0 :: nat]"
proof -
  note h = farm_dataset
  note c = assembled_dataset_aligned [OF h]
  from c have "length [the (extract_features_worker leaf_lib ''dataset/healthy/a.jpg''),
           the (extract_features_worker leaf_lib ''dataset/healthy/b.JPG''),
           the (extract_features_worker leaf_lib ''dataset/blight/d.jpeg'')] =
     length [1, 1, 0 :: nat]"
    by (rule conjunct1)
  moreover from c have "list_all (\<lambda>l. l < length [''blight'', ''healthy'']) [1, 1, 0 :: nat]"
    unfolding list_all_iff by (rule conjunct2 [THEN conjunct1])
  ultimately show ?thesis using h by (intro conjI)
qed

subsection \<open>Failed extractions\<close>

text \<open>
  Claim C9. A failure inside the worker's \<^verbatim>\<open>try\<close> block, such as a file that does not
  decode, makes the worker return \<^verbatim>\<open>None\<close>. The assembler can only raise what the
  directory scan raises, whatever the image library does; and when the scan succeeds it
  returns the features and labels of exactly the tasks whose extraction succeeded.
\<close>

theorem extraction_failures_contained:
  "(worker_body lib p = Inl e \<longrightarrow> extract_features_worker lib p = None) \<and>
   (open_rgb lib p = Inl e \<longrightarrow> extract_features_worker lib p = None) \<and>
   (prepare_dataset fs lib smp g paths = Inl e \<longrightarrow> image_tasks fs smp g paths = Inl e) \<and>
   (image_tasks fs smp g paths = Inr (class_names, tasks) \<longrightarrow>
      prepare_dataset fs lib smp g paths =
        Inr (map (\<lambda>t. the (extract_features_worker lib (fst t)))
               (filter (\<lambda>t. extract_features_worker lib (fst t) \<noteq> None) tasks),
             map snd (filter (\<lambda>t. extract_features_worker lib (fst t) \<noteq> None) tasks),
             class_names))"
proof (intro conjI impI)
  assume "worker_body lib p = Inl e"
  then show "extract_features_worker lib p = None"
    by (simp add: extract_features_worker_def)
next
  assume "open_rgb lib p = Inl e"
  then show "extract_features_worker lib p = None"
    by (rule worker_fails)
next
  assume a: "prepare_dataset fs lib smp g paths = Inl e"
  show "image_tasks fs smp g paths = Inl e"
  proof (cases "image_tasks fs smp g paths")
    case (Inl e')
    from prepare_dataset_error [OF this, of lib] a show ?thesis using Inl by simp
  next
    case (Inr r)
    obtain names tasks where "r = (names, tasks)" by (cases r)
    with Inr prepare_dataset_eq [of fs smp g paths names tasks lib] a show ?thesis by simp
  qed
next
  assume "image_tasks fs smp g paths = Inr (class_names, tasks)"
  then show "prepare_dataset fs lib smp g paths =
        Inr (map (\<lambda>t. the (extract_features_worker lib (fst t)))
               (filter (\<lambda>t. extract_features_worker lib (fst t) \<noteq> None) tasks),
             map snd (filter (\<lambda>t. extract_features_worker lib (fst t) \<noteq> None) tasks),
             class_names)"
    by (rule prepare_dataset_eq)
qed

theorem extraction_failures_contained_witness:
  "open_rgb leaf_lib ''dataset/blight/c.png'' = Inl DecodeError \<and>
   extract_features_worker leaf_lib ''dataset/blight/c.png'' = None \<and>
   image_tasks farm_fs first_k 0 [''dataset''] =
     Inr ([''blight'', ''healthy''],
          [(''dataset/healthy/a.jpg'', 1), (''dataset/healthy/b.JPG'', 1),
           (''dataset/blight/c.png'', 0), (''dataset/blight/d.jpeg'', 0)]) \<and>
   prepare_dataset farm_fs leaf_lib first_k 0 [''dataset''] =
     Inr ([the (extract_features_worker leaf_lib ''dataset/healthy/a.jpg''),
           the (extract_features_worker leaf_lib ''dataset/healthy/b.JPG''),
           the (extract_features_worker leaf_lib ''dataset/blight/d.jpeg'')],
          [1, 1, 0], [''blight'', ''healthy''])"
proof -
  have o: "open_rgb leaf_lib ''dataset/blight/c.png'' = Inl DecodeError"
    by (simp add: leaf_lib_def)
  note c = extraction_failures_contained [of leaf_lib "''dataset/blight/c.png''" DecodeError
      farm_fs first_k 0 "[''dataset'']" "[''blight'', ''healthy'']"
      "[(''dataset/healthy/a.jpg'', 1), (''dataset/healthy/b.JPG'', 1),
        (''dataset/blight/c.png'', 0), (''dataset/blight/d.jpeg'', 0)]"]
  from c [THEN conjunct2, THEN conjunct1, THEN mp, OF o]
  have n: "extract_features_worker leaf_lib ''dataset/blight/c.png'' = None" .
  from c [THEN conjunct2, THEN conjunct2, THEN conjunct2, THEN mp, OF farm_tasks]
  have "prepare_dataset farm_fs leaf_lib first_k 0 [''dataset''] =
     Inr ([the (extract_features_worker leaf_lib ''dataset/healthy/a.jpg''),
           the (extract_features_worker leaf_lib ''dataset/healthy/b.JPG''),
           the (extract_features_worker leaf_lib ''dataset/blight/d.jpeg'')],
          [1, 1, 0], [''blight'', ''healthy''])"
    by (simp add: leaf_worker)
  with o n farm_tasks show ?thesis by (intro conjI)
qed

subsection \<open>The per-class cap\<close>

lemma take_as_nths: "k \<le> length xs \<Longrightarrow> take k xs = map (nth xs) [0..<k]"
proof -
  assume k: "k \<le> length xs"
  have "take k xs = take k (map (nth xs) [0..<length xs])" by (simp add: map_nth)
  also have "\<dots> = map (nth xs) (take k [0..<length xs])" by (rule take_map)
  also have "take k [0..<length xs] = [0..<k]" using k by simp
  finally show ?thesis .
qed

lemma sampler_ok_first_k: "sampler_ok first_k"
  unfolding sampler_ok_def
proof (intro allI impI)
  fix g :: nat and xs :: "string list" and k
  assume k: "k \<le> length xs"
  have "length [0..<k] = k \<and> distinct [0..<k] \<and> list_all (\<lambda>i. i < length xs) [0..<k] \<and>
      fst (first_k g xs k) = map (nth xs) [0..<k]"
    using k by (simp add: first_k_def take_as_nths list_all_iff)
  then show "\<exists>ps. length ps = k \<and> distinct ps \<and> list_all (\<lambda>i. i < length xs) ps \<and>
      fst (first_k g xs k) = map (nth xs) ps" by blast
qed

lemma select_files_cases:
  assumes "sampler_ok smp" "select_files smp g files = (chosen, g')"
  shows "(length files > SAMPLES_PER_CLASS \<longrightarrow> length chosen = SAMPLES_PER_CLASS \<and>
            (\<exists>ps. length ps = SAMPLES_PER_CLASS \<and> distinct ps \<and>
               list_all (\<lambda>i. i < length files) ps \<and> chosen = map (nth files) ps)) \<and>
         (length files \<le> SAMPLES_PER_CLASS \<longrightarrow> chosen = files)"
proof (cases "length files > SAMPLES_PER_CLASS")
  case True
  then have "SAMPLES_PER_CLASS \<le> length files" by simp
  with assms(1) obtain ps where ps: "length ps = SAMPLES_PER_CLASS" "distinct ps"
    "list_all (\<lambda>i. i < length files) ps"
    "fst (smp g files SAMPLES_PER_CLASS) = map (nth files) ps"
    unfolding sampler_ok_def by blast
  from assms(2) True have "chosen = fst (smp g files SAMPLES_PER_CLASS)"
    by (simp add: select_files_def)
  with ps have c: "chosen = map (nth files) ps" by simp
  then have "length chosen = SAMPLES_PER_CLASS" using ps(1) by simp
  with True c ps show ?thesis by auto
next
  case False
  with assms(2) show ?thesis by (simp add: select_files_def)
qed

lemma is_image_file_jpg: "is_image_file (s @ ''.jpg'')"
  by (simp add: is_image_file_def endswith_def lower_def lower_char_def)

lemma crowded_files:
  "filter is_image_file (map (\<lambda>i. replicate i CHR ''a'' @ ''.jpg'') [0..<1001]) =
   map (\<lambda>i. replicate i CHR ''a'' @ ''.jpg'') [0..<1001]"
  by (simp add: filter_map o_def is_image_file_jpg del: upt_Suc)

lemma crowded_tasks:
  "class_tasks crowded_fs first_k (class_to_idx_of [''rust'']) ''dataset'' ''rust'' 0 =
     Inr (map (\<lambda>f. (path_join ''dataset/rust'' f, 0))
            (take SAMPLES_PER_CLASS (map (\<lambda>i. replicate i CHR ''a'' @ ''.jpg'') [0..<1001])), 1)"
proof -
  have p: "path_join ''dataset'' ''rust'' = ''dataset/rust''"
    by (simp add: path_join_def)
  have i: "class_to_idx_of [''rust''] ''rust'' = Some 0"
    by (simp add: class_to_idx_of_def idx_step_def)
  have l: "listdir crowded_fs ''dataset/rust'' =
      Inr (map (\<lambda>i. replicate i CHR ''a'' @ ''.jpg'') [0..<1001])"
    by (simp add: crowded_fs_def)
  have s: "select_files first_k 0 (map (\<lambda>i. replicate i CHR ''a'' @ ''.jpg'') [0..<1001]) =
      (take SAMPLES_PER_CLASS (map (\<lambda>i. replicate i CHR ''a'' @ ''.jpg'') [0..<1001]), 1)"
    by (simp add: select_files_def first_k_def SAMPLES_PER_CLASS_def del: upt_Suc)
  show ?thesis
    unfolding class_tasks_def p Let_def i l
    by (simp only: option.case sum.case crowded_files s prod.case)
qed

text \<open>
  Claim C7. For a class directory, with a sampler that returns the entries at \<open>k\<close>
  distinct positions: when the directory has more recognised image files than the cap,
  exactly \<^const>\<open>SAMPLES_PER_CLASS\<close> tasks are made, from distinct positions of the file
  list; otherwise one task is made for every file, in listing order.
\<close>

theorem per_class_cap:
  assumes "sampler_ok smp" "class_tasks fs smp c2i rt cls g = Inr (tasks, g')"
  shows "\<exists>names. listdir fs (path_join rt cls) = Inr names \<and>
     (let files = filter is_image_file names; dir = path_join rt cls in
        (length files > SAMPLES_PER_CLASS \<longrightarrow> length tasks = SAMPLES_PER_CLASS \<and>
           (\<exists>ps. length ps = SAMPLES_PER_CLASS \<and> distinct ps \<and>
              list_all (\<lambda>i. i < length files) ps \<and>
              map fst tasks = map (\<lambda>i. path_join dir (files ! i)) ps)) \<and>
        (length files \<le> SAMPLES_PER_CLASS \<longrightarrow>
           map fst tasks = map (path_join dir) files))"
proof -
  from assms(2) obtain idx names chosen where
    l: "listdir fs (path_join rt cls) = Inr names" and
    s: "select_files smp g (filter is_image_file names) = (chosen, g')" and
    t: "tasks = map (\<lambda>img_file. (path_join (path_join rt cls) img_file, idx)) chosen"
    by (auto simp: class_tasks_def Let_def split: option.splits sum.splits prod.splits)
  have f: "map fst tasks = map (path_join (path_join rt cls)) chosen"
    by (simp add: t o_def)
  have n: "length tasks = length chosen" by (simp add: t)
  from select_files_cases [OF assms(1) s] f n
  have "(length (filter is_image_file names) > SAMPLES_PER_CLASS \<longrightarrow>
           length tasks = SAMPLES_PER_CLASS \<and>
           (\<exists>ps. length ps = SAMPLES_PER_CLASS \<and> distinct ps \<and>
              list_all (\<lambda>i. i < length (filter is_image_file names)) ps \<and>
              map fst tasks =
                map (\<lambda>i. path_join (path_join rt cls) (filter is_image_file names ! i)) ps)) \<and>
        (length (filter is_image_file names) \<le> SAMPLES_PER_CLASS \<longrightarrow>
           map fst tasks = map (path_join (path_join rt cls)) (filter is_image_file names))"
    by (auto simp: o_def)
  with l show ?thesis by (simp add: Let_def)
qed

theorem per_class_cap_witness:
  "sampler_ok first_k \<and>
   class_tasks crowded_fs first_k (class_to_idx_of [''rust'']) ''dataset'' ''rust'' 0 =
     Inr (map (\<lambda>f. (path_join ''dataset/rust'' f, 0))
            (take SAMPLES_PER_CLASS (map (\<lambda>i. replicate i CHR ''a'' @ ''.jpg'') [0..<1001])), 1) \<and>
   length (map (\<lambda>f. (path_join ''dataset/rust'' f, 0 :: nat))
            (take SAMPLES_PER_CLASS (map (\<lambda>i. replicate i CHR ''a'' @ ''.jpg'') [0..<1001]))) =
     SAMPLES_PER_CLASS"
proof -
  note ok = sampler_ok_first_k
  note h = crowded_tasks
  from per_class_cap [OF ok h] obtain names where
    l: "listdir crowded_fs (path_join ''dataset'' ''rust'') = Inr names" and
    c: "length (filter is_image_file names) > SAMPLES_PER_CLASS \<longrightarrow>
        length (map (\<lambda>f. (path_join ''dataset/rust'' f, 0 :: nat))
            (take SAMPLES_PER_CLASS (map (\<lambda>i. replicate i CHR ''a'' @ ''.jpg'') [0..<1001]))) =
        SAMPLES_PER_CLASS"
    unfolding Let_def by blast
  from l have "names = map (\<lambda>i. replicate i CHR ''a'' @ ''.jpg'') [0..<1001]"
    by (simp add: crowded_fs_def path_join_def)
  then have "length (filter is_image_file names) > SAMPLES_PER_CLASS"
    by (simp add: crowded_files SAMPLES_PER_CLASS_def del: upt_Suc)
  with c have "length (map (\<lambda>f. (path_join ''dataset/rust'' f, 0 :: nat))
            (take SAMPLES_PER_CLASS (map (\<lambda>i. replicate i CHR ''a'' @ ''.jpg'') [0..<1001]))) =
        SAMPLES_PER_CLASS"
    by (rule mp)
  with ok h show ?thesis by (intro conjI)
qed

section \<open>The empty dataset\<close>

lemma no_fs_tasks: "image_tasks no_fs first_k 0 default_paths = Inr ([], [])"
  by code_simp

lemma no_fs_dataset: "prepare_dataset no_fs leaf_lib first_k 0 default_paths = Inr ([], [], [])"
  by (simp add: prepare_dataset_eq [OF no_fs_tasks])

lemma prepare_dataset_lengths:
  assumes "prepare_dataset fs lib smp g paths = Inr (X, y, class_names)"
  shows "length X = length y"
proof -
  from assms obtain names tasks where t: "image_tasks fs smp g paths = Inr (names, tasks)"
    by (cases "image_tasks fs smp g paths") (auto simp: prepare_dataset_def)
  from prepare_dataset_eq [OF t, of lib] assms show ?thesis by auto
qed

lemma train_model_split_raises:
  "train_test_split sk X y = Inl e \<Longrightarrow> train_model sk X y class_names = ([SplitCall X y], Inl e)"
  by (simp add: train_model_def)

text \<open>
  Claim C2, as stated, says that an empty dataset never reaches the split. With no root
  on disk the assembler returns empty arrays without raising, and the main function
  calls the train/test split on them.
\<close>

theorem empty_dataset_passed_to_split:
  "prepare_dataset no_fs leaf_lib first_k 0 default_paths = Inr ([], [], []) \<and>
   main no_fs leaf_lib first_k 0 strict_sk = ([SplitCall [] []], Inl ValueError)"
proof -
  have d: "makedirs no_fs OUTPUT_DIR = Inr ()"
    by (simp add: no_fs_def)
  show ?thesis
    by (simp add: no_fs_dataset d main_def train_model_def strict_sk_def)
qed

text \<open>
  Claim C2, amended. When assembly yields no features, the labels are empty too, and the
  first thing the main function does with them is the train/test split. If that call
  raises, the run ends with its error and nothing is fitted or saved; if it returns, the
  ensemble is fitted on what it returned.
\<close>

theorem empty_dataset_reaches_split:
  assumes "makedirs fs OUTPUT_DIR = Inr ()"
    "prepare_dataset fs lib smp g default_paths = Inr ([], y, class_names)"
  shows "y = [] \<and>
         (\<exists>later. fst (main fs lib smp g sk) = SplitCall [] [] # later) \<and>
         (\<forall>e. train_test_split sk [] [] = Inl e \<longrightarrow>
              main fs lib smp g sk = ([SplitCall [] []], Inl e)) \<and>
         (\<forall>X_train X_test y_train y_test.
              train_test_split sk [] [] = Inr (X_train, X_test, y_train, y_test) \<longrightarrow>
              (\<exists>later. fst (main fs lib smp g sk) =
                 SplitCall [] [] # FitCall X_train y_train # later))"
proof -
  from prepare_dataset_lengths [OF assms(2)] have y: "y = []" by simp
  have h: "\<exists>later. fst (main fs lib smp g sk) = SplitCall [] [] # later"
    by (auto simp: main_def assms y train_model_def split: sum.splits prod.splits)
  have r: "main fs lib smp g sk = ([SplitCall [] []], Inl e)"
    if "train_test_split sk [] [] = Inl e" for e
    using train_model_split_raises [OF that, of class_names]
    by (simp add: main_def assms y)
  have f: "\<exists>later. fst (main fs lib smp g sk) = SplitCall [] [] # FitCall X_train y_train # later"
    if "train_test_split sk [] [] = Inr (X_train, X_test, y_train, y_test)"
    for X_train X_test y_train y_test
    using that
    by (auto simp: main_def assms y train_model_def split: sum.splits prod.splits)
  from y h r f show ?thesis by blast
qed

theorem empty_dataset_reaches_split_witness:
  "makedirs no_fs OUTPUT_DIR = Inr () \<and>
   prepare_dataset no_fs leaf_lib first_k 0 default_paths = Inr ([], [], []) \<and>
   train_test_split strict_sk [] [] = Inl ValueError \<and>
   main no_fs leaf_lib first_k 0 strict_sk = ([SplitCall [] []], Inl ValueError)"
proof -
  have d: "makedirs no_fs OUTPUT_DIR = Inr ()"
    by (simp add: no_fs_def)
  note h = no_fs_dataset
  have s: "train_test_split strict_sk [] [] = Inl ValueError"
    by (simp add: strict_sk_def)
  from empty_dataset_reaches_split [OF d h, of strict_sk] s
  have "main no_fs leaf_lib first_k 0 strict_sk = ([SplitCall [] []], Inl ValueError)"
    by blast
  with d h s show ?thesis by (intro conjI)
qed

end
